theory Spec2Isabelle
  imports Main
begin

section \<open>Python values used by the board\<close>

text \<open>
  The exceptions the board and the solver can raise: \<open>ValueError\<close> is raised by
  \<open>place_chip\<close> itself, \<open>IndexError\<close> by a list access out of range.
\<close>

datatype py_error = ValueError | IndexError

text \<open>
  \<open>xs[i]\<close> on a Python list: an index in \<open>-len..-1\<close> counts from the end, any
  other index outside \<open>0..len-1\<close> raises \<open>IndexError\<close>.
\<close>

definition py_index :: "'a list \<Rightarrow> int \<Rightarrow> py_error + 'a" where
  "py_index xs i =
     (if 0 \<le> i \<and> i < int (length xs) then Inr (xs ! nat i)
      else if - int (length xs) \<le> i \<and> i < 0 then Inr (xs ! nat (int (length xs) + i))
      else Inl IndexError)"

text \<open>\<open>xs[i] = v\<close> on a Python list, with the same index rule.\<close>

definition py_store :: "'a list \<Rightarrow> int \<Rightarrow> 'a \<Rightarrow> py_error + 'a list" where
  "py_store xs i v =
     (if 0 \<le> i \<and> i < int (length xs) then Inr (xs[nat i := v])
      else if - int (length xs) \<le> i \<and> i < 0 then Inr (xs[nat (int (length xs) + i) := v])
      else Inl IndexError)"

text \<open>\<open>range(a, b)\<close>.\<close>

definition py_range :: "int \<Rightarrow> int \<Rightarrow> int list" where
  "py_range a b = [a..b - 1]"

text \<open>
  A \<open>collections.Counter\<close>: a dictionary whose lookup of a missing key gives 0
  without inserting the key; \<open>c[k] += 1\<close> stores \<open>c[k] + 1\<close> under \<open>k\<close>.
\<close>

type_synonym counter = "int \<rightharpoonup> int"

definition counter_get :: "counter \<Rightarrow> int \<Rightarrow> int" where
  "counter_get m k = (case m k of None \<Rightarrow> 0 | Some v \<Rightarrow> v)"

definition counter_incr :: "counter \<Rightarrow> int \<Rightarrow> counter" where
  "counter_incr m k = m(k \<mapsto> counter_get m k + 1)"

section \<open>Connect4Board\<close>

datatype Colour = EMPTY | RED | YELLOW

definition ROWS :: int where "ROWS = 6"
definition COLUMNS :: int where "COLUMNS = 7"

type_synonym position = "int \<times> int"
type_synonym line = "position list"

text \<open>
  The list object that the field \<open>available_moves\<close> of a board refers to. The
  default of the constructor's parameter, \<open>[True] * COLUMNS\<close>, is evaluated once,
  when the class is defined: every board constructed without that argument refers to
  this one list, and what is written to it through one board is read through all of
  them. \<open>__deepcopy__\<close> passes a list it has just made, to which only the copy
  refers. So the field is either a reference to the default list, or a list of the
  board's own; the contents of the default list are a state of the program beside the
  boards: a method that reads \<open>available_moves\<close> takes them as its first
  argument, and a method that writes returns them with the board.
\<close>

datatype moves_ref = Default_moves | Own_moves "bool list"

definition initial_default_moves :: "bool list" where
  "initial_default_moves = replicate (nat COLUMNS) True"

record Connect4Board =
  moves_made :: int
  last_move :: position
  winner :: Colour
  board :: "Colour list list"
  column_chip_count :: counter
  available_moves :: moves_ref

text \<open>\<open>self.available_moves\<close>, followed to the list.\<close>

definition moves_list :: "bool list \<Rightarrow> Connect4Board \<Rightarrow> bool list" where
  "moves_list defaults self =
     (case available_moves self of Default_moves \<Rightarrow> defaults | Own_moves xs \<Rightarrow> xs)"

subsection \<open>The static tables of winning lines\<close>

definition horizontal_lines :: "line list" where
  "horizontal_lines =
     concat (map (\<lambda>row. map (\<lambda>starting_col.
        [(row, starting_col), (row, starting_col + 1),
         (row, starting_col + 2), (row, starting_col + 3)])
       (py_range 0 (COLUMNS - 3))) (py_range 0 ROWS))"

definition vertical_lines :: "line list" where
  "vertical_lines =
     concat (map (\<lambda>col. map (\<lambda>starting_row.
        [(starting_row, col), (starting_row + 1, col),
         (starting_row + 2, col), (starting_row + 3, col)])
       (py_range 0 (ROWS - 3))) (py_range 0 COLUMNS))"

definition diagonal_falling_lines :: "line list" where
  "diagonal_falling_lines =
     concat (map (\<lambda>starting_row. map (\<lambda>starting_col.
        [(starting_row, starting_col), (starting_row + 1, starting_col + 1),
         (starting_row + 2, starting_col + 2), (starting_row + 3, starting_col + 3)])
       (py_range 0 (COLUMNS - 3))) (py_range 0 (ROWS - 3)))"

definition diagonal_rising_lines :: "line list" where
  "diagonal_rising_lines =
     concat (map (\<lambda>starting_row. map (\<lambda>starting_col.
        [(starting_row, starting_col), (starting_row - 1, starting_col + 1),
         (starting_row - 2, starting_col + 2), (starting_row - 3, starting_col + 3)])
       (py_range 0 (COLUMNS - 3))) (py_range 4 ROWS))"

definition generate_winning_lines :: "line list" where
  "generate_winning_lines =
     horizontal_lines @ vertical_lines @ diagonal_falling_lines @ diagonal_rising_lines"

text \<open>
  The class attribute \<open>WINNING_LINES\<close> is filled by the first constructor call and
  never written again; every board object exists only after a constructor call.
\<close>

definition WINNING_LINES :: "line list" where
  "WINNING_LINES = generate_winning_lines"

text \<open>
  \<open>line[:]\<close> copies the line and \<open>remove\<close> deletes the first occurrence of the
  position.
\<close>

definition generate_winning_lines_for_positions :: "int \<Rightarrow> int \<Rightarrow> line list" where
  "generate_winning_lines_for_positions row column =
     map (remove1 (row, column))
       (filter (\<lambda>line. (row, column) \<in> set line) WINNING_LINES)"

definition WINNING_LINES_BY_POSITION :: "line list list list" where
  "WINNING_LINES_BY_POSITION =
     map (\<lambda>i. map (\<lambda>j. generate_winning_lines_for_positions i j) (py_range 0 COLUMNS))
       (py_range 0 ROWS)"

subsection \<open>Construction and copying\<close>

text \<open>
  The constructor. \<open>board\<close> and \<open>column_chip_count\<close> default to \<open>None\<close>, for
  which a grid of \<open>EMPTY\<close> cells and a counter holding 0 for every column are
  built; \<open>winner\<close> is set to \<open>EMPTY\<close> whatever the arguments are. Without the
  argument \<open>available_moves\<close> the new board refers to the default list; with it, to
  the list that is passed.
\<close>

definition init_Connect4Board ::
  "int \<Rightarrow> position \<Rightarrow> Colour list list option \<Rightarrow> counter option \<Rightarrow> bool list option
     \<Rightarrow> Connect4Board" where
  "init_Connect4Board moves_made' last_move' board' column_chip_count' available_moves' =
     \<lparr> moves_made = moves_made',
       last_move = last_move',
       winner = EMPTY,
       board = (case board' of
                  Some b \<Rightarrow> b
                | None \<Rightarrow> map (\<lambda>j. map (\<lambda>i. EMPTY) (py_range 0 COLUMNS)) (py_range 0 ROWS)),
       column_chip_count = (case column_chip_count' of
                  Some c \<Rightarrow> c
                | None \<Rightarrow> map_of (map (\<lambda>col. (col, 0)) (py_range 0 COLUMNS))),
       available_moves = (case available_moves' of
                  Some xs \<Rightarrow> Own_moves xs
                | None \<Rightarrow> Default_moves) \<rparr>"

text \<open>
  \<open>Connect4Board()\<close>, the empty board: every argument at its default. What its
  columns' flags are is what the default list holds: \<open>initial_default_moves\<close> for
  the first board of a program, and whatever earlier and other boards have written
  since for a later one.
\<close>

definition empty_board :: Connect4Board where
  "empty_board = init_Connect4Board 0 (- 1, - 1) None None None"

definition deepcopy :: "bool list \<Rightarrow> Connect4Board \<Rightarrow> Connect4Board" where
  "deepcopy defaults self =
     (let last_move' = (fst (last_move self), snd (last_move self));
          new_board = map (\<lambda>row. map (\<lambda>col. col) row) (board self);
          new_column_chip_count = column_chip_count self;
          new_available_moves = map (\<lambda>available. available) (moves_list defaults self)
      in init_Connect4Board (moves_made self) last_move' (Some new_board)
           (Some new_column_chip_count) (Some new_available_moves))"

subsection \<open>Reading and writing the grid\<close>

text \<open>\<open>self.board[r][c]\<close>.\<close>

definition board_get :: "Colour list list \<Rightarrow> int \<Rightarrow> int \<Rightarrow> py_error + Colour" where
  "board_get g r c = (case py_index g r of Inl e \<Rightarrow> Inl e | Inr row \<Rightarrow> py_index row c)"

text \<open>\<open>self.board[r][c] = v\<close>: the row object is fetched, then written in place.\<close>

definition board_set ::
  "Colour list list \<Rightarrow> int \<Rightarrow> int \<Rightarrow> Colour \<Rightarrow> py_error + Colour list list" where
  "board_set g r c v =
     (case py_index g r of
        Inl e \<Rightarrow> Inl e
      | Inr row \<Rightarrow>
          (case py_store row c v of
             Inl e \<Rightarrow> Inl e
           | Inr row' \<Rightarrow> py_store g r row'))"

text \<open>\<open>self.board[line[k][0]][line[k][1]]\<close>.\<close>

definition line_get :: "Colour list list \<Rightarrow> line \<Rightarrow> int \<Rightarrow> py_error + Colour" where
  "line_get g ln k =
     (case py_index ln k of Inl e \<Rightarrow> Inl e | Inr pos \<Rightarrow> board_get g (fst pos) (snd pos))"

text \<open>Python's \<open>and\<close>: the right operand is evaluated only if the left one is true.\<close>

definition py_and :: "py_error + bool \<Rightarrow> py_error + bool \<Rightarrow> py_error + bool" where
  "py_and a b = (case a of Inl e \<Rightarrow> Inl e | Inr x \<Rightarrow> if x then b else Inr False)"

subsection \<open>Operations\<close>

definition move_available :: "bool list \<Rightarrow> Connect4Board \<Rightarrow> int \<Rightarrow> py_error + bool" where
  "move_available defaults self column = py_index (moves_list defaults self) column"

text \<open>The loop of \<open>check_winner_from_last_move\<close> over the lines of the last cell.\<close>

definition last_move_line_matches ::
  "Colour list list \<Rightarrow> Colour \<Rightarrow> line \<Rightarrow> py_error + bool" where
  "last_move_line_matches g last_move_colour ln =
     py_and (map_sum id (\<lambda>c. c = last_move_colour) (line_get g ln 0))
       (py_and (map_sum id (\<lambda>c. c = last_move_colour) (line_get g ln 1))
               (map_sum id (\<lambda>c. c = last_move_colour) (line_get g ln 2)))"

fun check_lines_of_last_move ::
  "Colour list list \<Rightarrow> Colour \<Rightarrow> line list \<Rightarrow> py_error + Colour" where
  "check_lines_of_last_move g last_move_colour [] = Inr EMPTY"
| "check_lines_of_last_move g last_move_colour (ln # lns) =
     (case last_move_line_matches g last_move_colour ln of
        Inl e \<Rightarrow> Inl e
      | Inr matches \<Rightarrow>
          if matches then Inr last_move_colour
          else check_lines_of_last_move g last_move_colour lns)"

definition check_winner_from_last_move :: "Connect4Board \<Rightarrow> py_error + Colour" where
  "check_winner_from_last_move self =
     (if last_move self = (- 1, - 1) then Inr EMPTY
      else
        let last_row = fst (last_move self); last_col = snd (last_move self) in
        (case board_get (board self) last_row last_col of
           Inl e \<Rightarrow> Inl e
         | Inr last_move_colour \<Rightarrow>
             (case py_index WINNING_LINES_BY_POSITION last_row of
                Inl e \<Rightarrow> Inl e
              | Inr by_column \<Rightarrow>
                  (case py_index by_column last_col of
                     Inl e \<Rightarrow> Inl e
                   | Inr lns \<Rightarrow> check_lines_of_last_move (board self) last_move_colour lns))))"

text \<open>The two cells \<open>line[i]\<close> and \<open>line[j]\<close> hold the same colour.\<close>

definition line_cells_equal :: "Colour list list \<Rightarrow> line \<Rightarrow> int \<Rightarrow> int \<Rightarrow> py_error + bool" where
  "line_cells_equal g ln i j =
     (case line_get g ln i of
        Inl e \<Rightarrow> Inl e
      | Inr a \<Rightarrow> (case line_get g ln j of Inl e \<Rightarrow> Inl e | Inr b \<Rightarrow> Inr (a = b)))"

definition board_line_full :: "Colour list list \<Rightarrow> line \<Rightarrow> py_error + bool" where
  "board_line_full g ln =
     py_and (map_sum id (\<lambda>c. c \<noteq> EMPTY) (line_get g ln 0))
       (py_and (line_cells_equal g ln 0 1)
          (py_and (line_cells_equal g ln 1 2) (line_cells_equal g ln 2 3)))"

fun check_lines_of_board :: "Colour list list \<Rightarrow> line list \<Rightarrow> py_error + Colour" where
  "check_lines_of_board g [] = Inr EMPTY"
| "check_lines_of_board g (ln # lns) =
     (case board_line_full g ln of
        Inl e \<Rightarrow> Inl e
      | Inr full \<Rightarrow> if full then line_get g ln 0 else check_lines_of_board g lns)"

definition check_winner_from_board :: "Connect4Board \<Rightarrow> py_error + Colour" where
  "check_winner_from_board self = check_lines_of_board (board self) WINNING_LINES"

text \<open>
  The methods that write return the board and the default list after the call; when
  they raise, the result is the exception together with the board and the default list
  as the raise leaves them.
\<close>

type_synonym program_state = "Connect4Board \<times> bool list"

text \<open>
  \<open>self.available_moves[column] = v\<close>: the write goes to the list the board refers
  to.
\<close>

definition moves_store ::
  "bool list \<Rightarrow> Connect4Board \<Rightarrow> int \<Rightarrow> bool \<Rightarrow> py_error + program_state" where
  "moves_store defaults self column v =
     (case available_moves self of
        Default_moves \<Rightarrow>
          (case py_store defaults column v of
             Inl e \<Rightarrow> Inl e
           | Inr xs \<Rightarrow> Inr (self, xs))
      | Own_moves own \<Rightarrow>
          (case py_store own column v of
             Inl e \<Rightarrow> Inl e
           | Inr xs \<Rightarrow> Inr (self\<lparr>available_moves := Own_moves xs\<rparr>, defaults)))"

definition update_column_availability ::
  "bool list \<Rightarrow> Connect4Board \<Rightarrow> int \<Rightarrow> (py_error \<times> program_state) + program_state" where
  "update_column_availability defaults self column =
     (let s1 = self\<lparr>column_chip_count := counter_incr (column_chip_count self) column\<rparr>
      in if counter_get (column_chip_count s1) column = ROWS then
           (case moves_store defaults s1 column False of
              Inl e \<Rightarrow> Inl (e, s1, defaults)
            | Inr sd \<Rightarrow> Inr sd)
         else Inr (s1, defaults))"

definition place_chip ::
  "bool list \<Rightarrow> Connect4Board \<Rightarrow> Colour \<Rightarrow> int
     \<Rightarrow> (py_error \<times> program_state) + program_state" where
  "place_chip defaults self player column =
     (let row_placed_at = ROWS - counter_get (column_chip_count self) column - 1 in
      if row_placed_at < 0 then Inl (ValueError, self, defaults)
      else
        (case board_set (board self) row_placed_at column player of
           Inl e \<Rightarrow> Inl (e, self, defaults)
         | Inr g \<Rightarrow>
            (case update_column_availability defaults (self\<lparr>board := g\<rparr>) column of
               Inl es \<Rightarrow> Inl es
             | Inr sd \<Rightarrow>
                 let s3 = (fst sd)\<lparr>moves_made := moves_made (fst sd) + 1\<rparr>;
                     s4 = s3\<lparr>last_move := (row_placed_at, column)\<rparr>
                 in (case check_winner_from_last_move s4 of
                       Inl e \<Rightarrow> Inl (e, s4, snd sd)
                     | Inr w \<Rightarrow> Inr (s4\<lparr>winner := w\<rparr>, snd sd)))))"

definition still_playing :: "Connect4Board \<Rightarrow> bool" where
  "still_playing self =
     (if winner self \<noteq> EMPTY \<or> moves_made self = ROWS * COLUMNS then False else True)"

definition get_winner :: "Connect4Board \<Rightarrow> Colour" where
  "get_winner self = winner self"

definition get_moves_made :: "Connect4Board \<Rightarrow> int" where
  "get_moves_made self = moves_made self"

section \<open>Connect4Solver\<close>

text \<open>
  The solver's methods \<open>solveNaive\<close>, \<open>solve_minimax\<close> and
  \<open>place_chip_recursive\<close> with the helpers they call, and the test that
  \<open>play\<close> makes on a column before it places a chip. A method takes the contents
  of the default list and the board, and returns a value or an exception. It places
  chips only on copies; a copy has a list of its own, so these placements leave the
  board it is given and the default list as they are (lemma
  \<open>place_chip_deepcopy_default\<close>).
\<close>

definition alternate_colour :: "Colour \<Rightarrow> Colour" where
  "alternate_colour initial_colour = (if initial_colour = RED then YELLOW else RED)"

definition player_value :: "Colour \<Rightarrow> int" where
  "player_value player = (if player = RED then 1 else - 1)"

text \<open>
  The test of the console loop \<open>play\<close> on the column a person typed, made before
  \<open>place_chip\<close> is called; \<open>and\<close> evaluates \<open>move_available\<close> only for a column in
  range.
\<close>

definition valid_input :: "bool list \<Rightarrow> Connect4Board \<Rightarrow> int \<Rightarrow> bool" where
  "valid_input defaults game input_col =
     (input_col \<ge> 0 \<and> input_col < COLUMNS \<and>
      move_available defaults game input_col = Inr True)"

text \<open>
  The solver works on copies, so when a call on a copy raises, only the exception is
  passed on.
\<close>

function solveNaive_loop ::
  "bool list \<Rightarrow> Connect4Board \<Rightarrow> Colour \<Rightarrow> int \<Rightarrow> py_error + int" where
  "solveNaive_loop defaults game player col =
     (if col < COLUMNS then
        (case move_available defaults game col of
           Inl e \<Rightarrow> Inl e
         | Inr available \<Rightarrow>
             if available then
               (case place_chip defaults (deepcopy defaults game) player col of
                  Inl es \<Rightarrow> Inl (fst es)
                | Inr new_state \<Rightarrow>
                    if get_winner (fst new_state) \<noteq> EMPTY then Inr col
                    else solveNaive_loop defaults game player (col + 1))
             else solveNaive_loop defaults game player (col + 1))
      else Inr (- 1))"
  by pat_completeness auto
termination
  by (relation "measure (\<lambda>(defaults, game, player, col). nat (COLUMNS - col))") auto

definition solveNaive :: "bool list \<Rightarrow> Connect4Board \<Rightarrow> Colour \<Rightarrow> py_error + int" where
  "solveNaive defaults game player = solveNaive_loop defaults game player 0"

text \<open>\<open>max\<close> and \<open>min\<close> of a list of integers; both raise on the empty list.\<close>

fun py_max :: "int list \<Rightarrow> py_error + int" where
  "py_max [] = Inl ValueError"
| "py_max (x # xs) = Inr (fold max xs x)"

fun py_min :: "int list \<Rightarrow> py_error + int" where
  "py_min [] = Inl ValueError"
| "py_min (x # xs) = Inr (fold min xs x)"

text \<open>
  How the \<open>while\<close> loop of \<open>place_chip_recursive\<close> ends: by its \<open>return\<close>, or by
  its condition becoming false, with the values collected so far.
\<close>

datatype loop_exit = Return int | Fallthrough "int list"

text \<open>
  \<open>player_value\<close> is 1 or -1, so one of the two final \<open>if\<close>s of
  \<open>place_chip_recursive\<close> returns.
\<close>

function place_chip_recursive_loop ::
    "bool list \<Rightarrow> Connect4Board \<Rightarrow> Colour \<Rightarrow> int \<Rightarrow> int \<Rightarrow> int list
       \<Rightarrow> py_error + loop_exit"
  and place_chip_recursive ::
    "bool list \<Rightarrow> Connect4Board \<Rightarrow> Colour \<Rightarrow> int \<Rightarrow> py_error + int" where
  "place_chip_recursive_loop defaults game player depth col values =
     (if col < COLUMNS then
        (case move_available defaults game col of
           Inl e \<Rightarrow> Inl e
         | Inr available \<Rightarrow>
             if available then
               (case place_chip defaults (deepcopy defaults game) player col of
                  Inl es \<Rightarrow> Inl (fst es)
                | Inr new_state \<Rightarrow>
                    (case (if get_winner (fst new_state) = EMPTY \<and> depth > 1 then
                             place_chip_recursive defaults (fst new_state)
                               (alternate_colour player) (depth - 1)
                           else if get_winner (fst new_state) = EMPTY then Inr 0
                           else Inr (player_value (get_winner (fst new_state)))) of
                       Inl e \<Rightarrow> Inl e
                     | Inr v \<Rightarrow>
                         if v = player_value player then Inr (Return v)
                         else place_chip_recursive_loop defaults game player depth (col + 1)
                                (values @ [v])))
             else Inr (Fallthrough values))
      else Inr (Fallthrough values))"
| "place_chip_recursive defaults game player depth =
     (case place_chip_recursive_loop defaults game player depth 0 [] of
        Inl e \<Rightarrow> Inl e
      | Inr (Return v) \<Rightarrow> Inr v
      | Inr (Fallthrough values) \<Rightarrow>
          if length values = 0 then Inr 0
          else if player_value player = 1 then py_max values
          else py_min values)"
  by pat_completeness auto
termination
  by (relation "inv_image (less_than <*lex*> less_than)
        (\<lambda>x. case x of
           Inl (defaults, game, player, depth, col, values) \<Rightarrow>
             (nat depth, nat (COLUMNS - col))
         | Inr (defaults, game, player, depth) \<Rightarrow> (nat depth, 8))")
     (auto simp: COLUMNS_def)

text \<open>
  An entry of the list \<open>solve_minimax\<close> returns: the value of a search, or for a full
  column \<open>-inf * player_value\<close>, which is \<open>-inf\<close> for 1 and \<open>inf\<close> for -1.
\<close>

datatype minimax_value = MinusInf | Finite int | PlusInf

definition minus_inf_times :: "int \<Rightarrow> minimax_value" where
  "minus_inf_times k = (if k > 0 then MinusInf else PlusInf)"

fun solve_minimax_loop ::
  "bool list \<Rightarrow> Connect4Board \<Rightarrow> Colour \<Rightarrow> int \<Rightarrow> minimax_value list \<Rightarrow> int list
     \<Rightarrow> py_error + minimax_value list" where
  "solve_minimax_loop defaults game player depth minimax_values [] = Inr minimax_values"
| "solve_minimax_loop defaults game player depth minimax_values (col # cols) =
     (case move_available defaults game col of
        Inl e \<Rightarrow> Inl e
      | Inr available \<Rightarrow>
          if \<not> available then
            solve_minimax_loop defaults game player depth
              (minimax_values @ [minus_inf_times (player_value player)]) cols
          else
            (case place_chip defaults (deepcopy defaults game) player col of
               Inl es \<Rightarrow> Inl (fst es)
             | Inr new_state \<Rightarrow>
                 (case place_chip_recursive defaults (fst new_state)
                         (alternate_colour player) depth of
                    Inl e \<Rightarrow> Inl e
                  | Inr v \<Rightarrow>
                      solve_minimax_loop defaults game player depth
                        (minimax_values @ [Finite v]) cols)))"

definition solve_minimax ::
  "bool list \<Rightarrow> Connect4Board \<Rightarrow> Colour \<Rightarrow> int \<Rightarrow> py_error + minimax_value list" where
  "solve_minimax defaults game player depth =
     solve_minimax_loop defaults game player depth [] (py_range 0 COLUMNS)"

section \<open>Notions used in the statements\<close>

subsection \<open>Grids and lines\<close>

text \<open>A position of the 6 by 7 grid, and the colour a grid holds there.\<close>

definition in_grid :: "position \<Rightarrow> bool" where
  "in_grid pos \<longleftrightarrow> 0 \<le> fst pos \<and> fst pos < ROWS \<and> 0 \<le> snd pos \<and> snd pos < COLUMNS"

definition cell :: "Colour list list \<Rightarrow> position \<Rightarrow> Colour" where
  "cell g pos = g ! nat (fst pos) ! nat (snd pos)"

definition wf_grid :: "Colour list list \<Rightarrow> bool" where
  "wf_grid g \<longleftrightarrow> int (length g) = ROWS \<and> (\<forall>row\<in>set g. int (length row) = COLUMNS)"

text \<open>The grid with one cell overwritten.\<close>

definition grid_update :: "Colour list list \<Rightarrow> position \<Rightarrow> Colour \<Rightarrow> Colour list list" where
  "grid_update g pos v = g[nat (fst pos) := (g ! nat (fst pos))[nat (snd pos) := v]]"

definition valid_line :: "line \<Rightarrow> bool" where
  "valid_line ln \<longleftrightarrow> length ln = 4 \<and> distinct ln \<and> (\<forall>pos\<in>set ln. in_grid pos)"

definition line_of_colour :: "Colour list list \<Rightarrow> Colour \<Rightarrow> line \<Rightarrow> bool" where
  "line_of_colour g p ln \<longleftrightarrow> (\<forall>pos\<in>set ln. cell g pos = p)"

text \<open>
  Some generated line through \<open>pos\<close> is filled with the colour at \<open>pos\<close>; no
  generated line is filled with a player's colour.
\<close>

definition wins_at :: "Colour list list \<Rightarrow> position \<Rightarrow> bool" where
  "wins_at g pos \<longleftrightarrow>
     (\<exists>ln\<in>set WINNING_LINES. pos \<in> set ln \<and> line_of_colour g (cell g pos) ln)"

definition no_full_line :: "Colour list list \<Rightarrow> bool" where
  "no_full_line g \<longleftrightarrow>
     (\<forall>ln\<in>set WINNING_LINES. \<forall>p. p \<noteq> EMPTY \<longrightarrow> \<not> line_of_colour g p ln)"

subsection \<open>Boards\<close>

text \<open>\<open>column_chip_count[c]\<close>, the height of column \<open>c\<close>.\<close>

definition column_height :: "Connect4Board \<Rightarrow> int \<Rightarrow> int" where
  "column_height b c = counter_get (column_chip_count b) c"

text \<open>
  The consistency of a board's grid and counts: a 6 by 7 grid, the move count equal to
  the sum of the seven heights, and every height between 0 and 6.
\<close>

definition counts_invariant :: "Connect4Board \<Rightarrow> bool" where
  "counts_invariant b \<longleftrightarrow>
     wf_grid (board b) \<and>
     moves_made b = sum_list (map (column_height b) (py_range 0 COLUMNS)) \<and>
     (\<forall>c\<in>set (py_range 0 COLUMNS). 0 \<le> column_height b c \<and> column_height b c \<le> ROWS)"

text \<open>
  The consistency of a board's fields, for given contents of the default list: the
  above, 7 availability flags in the list the board refers to, and every column whose
  flag is set of height below 6. That a column whose flag is cleared is full is not
  part of it: a board that refers to the default list reads the flags that other such
  boards have cleared.
\<close>

definition board_invariant :: "bool list \<Rightarrow> Connect4Board \<Rightarrow> bool" where
  "board_invariant defaults b \<longleftrightarrow>
     counts_invariant b \<and>
     int (length (moves_list defaults b)) = COLUMNS \<and>
     (\<forall>c\<in>set (py_range 0 COLUMNS).
        moves_list defaults b ! nat c \<longrightarrow> column_height b c < ROWS)"

text \<open>
  The board and the default list that \<open>place_chip\<close> leaves when it places \<open>p\<close>
  in a column \<open>c\<close> from 0 to 6 of height below 6 (lemma \<open>place_chip_placed\<close>). The
  flag of a column that becomes full is cleared in the list the board refers to.
\<close>

definition placed :: "Connect4Board \<Rightarrow> Colour \<Rightarrow> int \<Rightarrow> Connect4Board" where
  "placed b p c =
     (let h = column_height b c;
          pos = (ROWS - h - 1, c);
          g = grid_update (board b) pos p
      in \<lparr> moves_made = moves_made b + 1,
           last_move = pos,
           winner = (if wins_at g pos then p else EMPTY),
           board = g,
           column_chip_count = counter_incr (column_chip_count b) c,
           available_moves =
             (case available_moves b of
                Default_moves \<Rightarrow> Default_moves
              | Own_moves xs \<Rightarrow>
                  Own_moves (if h + 1 = ROWS then xs[nat c := False] else xs)) \<rparr>)"

definition default_after :: "bool list \<Rightarrow> Connect4Board \<Rightarrow> int \<Rightarrow> bool list" where
  "default_after defaults b c =
     (case available_moves b of
        Default_moves \<Rightarrow>
          if column_height b c + 1 = ROWS then defaults[nat c := False] else defaults
      | Own_moves xs \<Rightarrow> defaults)"

fun placed_all :: "Connect4Board \<Rightarrow> (Colour \<times> int) list \<Rightarrow> Connect4Board" where
  "placed_all b [] = b"
| "placed_all b (m # ms) = placed_all (placed b (fst m) (snd m)) ms"

fun default_after_all :: "bool list \<Rightarrow> Connect4Board \<Rightarrow> (Colour \<times> int) list \<Rightarrow> bool list" where
  "default_after_all defaults b [] = defaults"
| "default_after_all defaults b (m # ms) =
     default_after_all (default_after defaults b (snd m)) (placed b (fst m) (snd m)) ms"

text \<open>
  What a call of \<open>place_chip\<close> raised, if anything, and the board and the default
  list it left behind, raised or not.
\<close>

definition raised :: "(py_error \<times> program_state) + program_state \<Rightarrow> py_error option" where
  "raised r = (case r of Inl es \<Rightarrow> Some (fst es) | Inr s \<Rightarrow> None)"

definition board_after :: "(py_error \<times> program_state) + program_state \<Rightarrow> Connect4Board" where
  "board_after r = (case r of Inl es \<Rightarrow> fst (snd es) | Inr s \<Rightarrow> fst s)"

definition defaults_after :: "(py_error \<times> program_state) + program_state \<Rightarrow> bool list" where
  "defaults_after r = (case r of Inl es \<Rightarrow> snd (snd es) | Inr s \<Rightarrow> snd s)"

subsection \<open>Sequences of placements\<close>

text \<open>
  A sequence of legal placements on a board, from given contents of the default list:
  each one places a player's colour in a column that passes the test of \<open>play\<close>,
  and \<open>place_chip\<close> returns. The result is the board with the default list as the
  placements leave it. The turns need not alternate, and the sequence may go on after a
  win: \<open>place_chip\<close> checks neither.
\<close>

fun legal_placements ::
  "bool list \<Rightarrow> Connect4Board \<Rightarrow> (Colour \<times> int) list \<Rightarrow> program_state option" where
  "legal_placements defaults b [] = Some (b, defaults)"
| "legal_placements defaults b (m # ms) =
     (if fst m \<noteq> EMPTY \<and> valid_input defaults b (snd m) then
        (case place_chip defaults b (fst m) (snd m) of
           Inl es \<Rightarrow> None
         | Inr s \<Rightarrow> legal_placements (snd s) (fst s) ms)
      else None)"

fun all_legal :: "bool list \<Rightarrow> Connect4Board \<Rightarrow> (Colour \<times> int) list \<Rightarrow> bool" where
  "all_legal defaults b [] = True"
| "all_legal defaults b (m # ms) =
    (fst m \<noteq> EMPTY \<and> 0 \<le> snd m \<and> snd m < COLUMNS \<and> moves_list defaults b ! nat (snd m) \<and>
     all_legal (default_after defaults b (snd m)) (placed b (fst m) (snd m)) ms)"

text \<open>
  The placements of a game: as above, and each is made while \<open>still_playing\<close> holds,
  which is how \<open>play\<close> calls \<open>place_chip\<close>.
\<close>

fun game_placements ::
  "bool list \<Rightarrow> Connect4Board \<Rightarrow> (Colour \<times> int) list \<Rightarrow> program_state option" where
  "game_placements defaults b [] = Some (b, defaults)"
| "game_placements defaults b (m # ms) =
     (if still_playing b \<and> fst m \<noteq> EMPTY \<and> valid_input defaults b (snd m) then
        (case place_chip defaults b (fst m) (snd m) of
           Inl es \<Rightarrow> None
         | Inr s \<Rightarrow> game_placements (snd s) (fst s) ms)
      else None)"

fun all_playing :: "bool list \<Rightarrow> Connect4Board \<Rightarrow> (Colour \<times> int) list \<Rightarrow> bool" where
  "all_playing defaults b [] = True"
| "all_playing defaults b (m # ms) =
    (still_playing b \<and> fst m \<noteq> EMPTY \<and> 0 \<le> snd m \<and> snd m < COLUMNS \<and>
     moves_list defaults b ! nat (snd m) \<and>
     all_playing (default_after defaults b (snd m)) (placed b (fst m) (snd m)) ms)"

text \<open>The two winner checks return the winner field.\<close>

definition checks_agree :: "Connect4Board \<Rightarrow> bool" where
  "checks_agree b \<longleftrightarrow>
     check_winner_from_last_move b = Inr (winner b) \<and>
     check_winner_from_board b = Inr (winner b)"

text \<open>
  The test of \<open>solveNaive\<close> on a column: it is available, and the copy on which
  the chip is placed has a winner.
\<close>

definition wins_immediately :: "bool list \<Rightarrow> Connect4Board \<Rightarrow> Colour \<Rightarrow> int \<Rightarrow> bool" where
  "wins_immediately defaults game player col \<longleftrightarrow>
     move_available defaults game col = Inr True \<and>
     (case place_chip defaults (deepcopy defaults game) player col of
        Inl es \<Rightarrow> False
      | Inr new_state \<Rightarrow> get_winner (fst new_state) \<noteq> EMPTY)"

declare solveNaive_loop.simps [simp del]
declare place_chip_recursive_loop.simps [simp del]
declare place_chip_recursive.simps [simp del]
declare solve_minimax_loop.simps(2) [simp del]

section \<open>The generated lines\<close>

lemma py_range_0_7: "py_range 0 7 = [0, 1, 2, 3, 4, 5, 6]"
  by (simp add: py_range_def upto.simps)

lemma py_range_0_6: "py_range 0 6 = [0, 1, 2, 3, 4, 5]"
  by (simp add: py_range_def upto.simps)

lemma py_range_0_4: "py_range 0 4 = [0, 1, 2, 3]"
  by (simp add: py_range_def upto.simps)

lemma py_range_0_3: "py_range 0 3 = [0, 1, 2]"
  by (simp add: py_range_def upto.simps)

lemma py_range_4_6: "py_range 4 6 = [4, 5]"
  by (simp add: py_range_def upto.simps)

lemmas py_ranges = py_range_0_7 py_range_0_6 py_range_0_4 py_range_0_3 py_range_4_6

lemma length_horizontal_lines: "length horizontal_lines = 24"
  by (simp add: horizontal_lines_def ROWS_def COLUMNS_def py_ranges)

lemma length_vertical_lines: "length vertical_lines = 21"
  by (simp add: vertical_lines_def ROWS_def COLUMNS_def py_ranges)

lemma length_diagonal_falling_lines: "length diagonal_falling_lines = 12"
  by (simp add: diagonal_falling_lines_def ROWS_def COLUMNS_def py_ranges)

lemma length_diagonal_rising_lines: "length diagonal_rising_lines = 8"
  by (simp add: diagonal_rising_lines_def ROWS_def COLUMNS_def py_ranges)

section \<open>Python lists\<close>

lemma py_index_nth: "0 \<le> i \<Longrightarrow> i < int (length xs) \<Longrightarrow> py_index xs i = Inr (xs ! nat i)"
  by (simp add: py_index_def)

lemma py_store_upd: "0 \<le> i \<Longrightarrow> i < int (length xs) \<Longrightarrow> py_store xs i v = Inr (xs[nat i := v])"
  by (simp add: py_store_def)

lemma py_index_error:
  "int (length xs) \<le> i \<or> i < - int (length xs) \<Longrightarrow> py_index xs i = Inl IndexError"
  by (auto simp: py_index_def Let_def)

lemma py_store_error:
  "int (length xs) \<le> i \<or> i < - int (length xs) \<Longrightarrow> py_store xs i v = Inl IndexError"
  by (auto simp: py_store_def Let_def)

lemma py_index_negative:
  "- int (length xs) \<le> i \<Longrightarrow> i < 0 \<Longrightarrow> py_index xs i = Inr (xs ! nat (int (length xs) + i))"
  by (simp add: py_index_def)

lemma py_store_negative:
  "- int (length xs) \<le> i \<Longrightarrow> i < 0 \<Longrightarrow>
     py_store xs i v = Inr (xs[nat (int (length xs) + i) := v])"
  by (simp add: py_store_def)

lemma py_index_map_range:
  assumes "0 \<le> i" "i < n"
  shows "py_index (map f (py_range 0 n)) i = Inr (f i)"
proof -
  from assms have "[0..n - 1] ! nat i = 0 + int (nat i)"
    by (intro nth_upto) simp
  with assms show ?thesis
    by (simp add: py_index_def py_range_def)
qed

lemma in_py_range: "c \<in> set (py_range 0 n) \<longleftrightarrow> 0 \<le> c \<and> c < n"
  by (auto simp: py_range_def)

section \<open>The grid\<close>

lemma wf_grid_row:
  assumes "wf_grid g" "0 \<le> r" "r < ROWS"
  shows "int (length (g ! nat r)) = COLUMNS"
proof -
  from assms have "nat r < length g"
    by (simp add: wf_grid_def nat_less_iff)
  then have "g ! nat r \<in> set g"
    by (rule nth_mem)
  with assms(1) show ?thesis
    by (simp add: wf_grid_def)
qed

lemma board_get_cell: "wf_grid g \<Longrightarrow> in_grid (r, c) \<Longrightarrow> board_get g r c = Inr (cell g (r, c))"
  using wf_grid_row [of g r]
  by (simp add: board_get_def in_grid_def cell_def py_index_nth wf_grid_def)

lemma board_set_upd:
  "wf_grid g \<Longrightarrow> in_grid (r, c) \<Longrightarrow> board_set g r c v = Inr (grid_update g (r, c) v)"
  using wf_grid_row [of g r]
  by (simp add: board_set_def in_grid_def grid_update_def py_index_nth py_store_upd wf_grid_def)

lemma wf_grid_update:
  assumes "wf_grid g"
  shows "wf_grid (grid_update g pos v)"
proof -
  have "int (length row) = COLUMNS" if "row \<in> set (grid_update g pos v)" for row
  proof -
    from that have "row \<in> insert ((g ! nat (fst pos))[nat (snd pos) := v]) (set g)"
      unfolding grid_update_def using set_update_subset_insert by fastforce
    then show ?thesis
    proof
      assume row: "row = (g ! nat (fst pos))[nat (snd pos) := v]"
      show ?thesis
      proof (cases "nat (fst pos) < length g")
        case True
        then have "g ! nat (fst pos) \<in> set g" by (rule nth_mem)
        with assms row show ?thesis by (simp add: wf_grid_def)
      next
        case False
        then have "g[nat (fst pos) := (g ! nat (fst pos))[nat (snd pos) := v]] = g"
          by (intro list_update_beyond) simp
        with that have "row \<in> set g" by (simp add: grid_update_def)
        with assms show ?thesis by (simp add: wf_grid_def)
      qed
    next
      assume "row \<in> set g"
      with assms show ?thesis by (simp add: wf_grid_def)
    qed
  qed
  with assms show ?thesis
    by (simp add: wf_grid_def grid_update_def)
qed

lemma cell_grid_update:
  assumes "wf_grid g" "in_grid pos" "in_grid q"
  shows "cell (grid_update g pos v) q = (if q = pos then v else cell g q)"
proof -
  obtain r c where pos: "pos = (r, c)" by (cases pos)
  obtain r' c' where q: "q = (r', c')" by (cases q)
  from assms pos have r: "nat r < length g" and c: "nat c < length (g ! nat r)"
    using wf_grid_row [of g r] by (simp_all add: in_grid_def wf_grid_def nat_less_iff)
  from assms q have r': "nat r' < length g"
    by (simp add: in_grid_def wf_grid_def nat_less_iff)
  from assms pos q have eq: "nat r = nat r' \<longleftrightarrow> r = r'" "nat c = nat c' \<longleftrightarrow> c = c'"
    by (auto simp: in_grid_def)
  show ?thesis
    using r c r' eq by (auto simp: pos q cell_def grid_update_def nth_list_update)
qed

section \<open>The winner checks\<close>

lemma WINNING_LINES_explicit:
  "WINNING_LINES =
    [[(0, 0), (0, 1), (0, 2), (0, 3)],
     [(0, 1), (0, 2), (0, 3), (0, 4)],
     [(0, 2), (0, 3), (0, 4), (0, 5)],
     [(0, 3), (0, 4), (0, 5), (0, 6)],
     [(1, 0), (1, 1), (1, 2), (1, 3)],
     [(1, 1), (1, 2), (1, 3), (1, 4)],
     [(1, 2), (1, 3), (1, 4), (1, 5)],
     [(1, 3), (1, 4), (1, 5), (1, 6)],
     [(2, 0), (2, 1), (2, 2), (2, 3)],
     [(2, 1), (2, 2), (2, 3), (2, 4)],
     [(2, 2), (2, 3), (2, 4), (2, 5)],
     [(2, 3), (2, 4), (2, 5), (2, 6)],
     [(3, 0), (3, 1), (3, 2), (3, 3)],
     [(3, 1), (3, 2), (3, 3), (3, 4)],
     [(3, 2), (3, 3), (3, 4), (3, 5)],
     [(3, 3), (3, 4), (3, 5), (3, 6)],
     [(4, 0), (4, 1), (4, 2), (4, 3)],
     [(4, 1), (4, 2), (4, 3), (4, 4)],
     [(4, 2), (4, 3), (4, 4), (4, 5)],
     [(4, 3), (4, 4), (4, 5), (4, 6)],
     [(5, 0), (5, 1), (5, 2), (5, 3)],
     [(5, 1), (5, 2), (5, 3), (5, 4)],
     [(5, 2), (5, 3), (5, 4), (5, 5)],
     [(5, 3), (5, 4), (5, 5), (5, 6)],
     [(0, 0), (1, 0), (2, 0), (3, 0)],
     [(1, 0), (2, 0), (3, 0), (4, 0)],
     [(2, 0), (3, 0), (4, 0), (5, 0)],
     [(0, 1), (1, 1), (2, 1), (3, 1)],
     [(1, 1), (2, 1), (3, 1), (4, 1)],
     [(2, 1), (3, 1), (4, 1), (5, 1)],
     [(0, 2), (1, 2), (2, 2), (3, 2)],
     [(1, 2), (2, 2), (3, 2), (4, 2)],
     [(2, 2), (3, 2), (4, 2), (5, 2)],
     [(0, 3), (1, 3), (2, 3), (3, 3)],
     [(1, 3), (2, 3), (3, 3), (4, 3)],
     [(2, 3), (3, 3), (4, 3), (5, 3)],
     [(0, 4), (1, 4), (2, 4), (3, 4)],
     [(1, 4), (2, 4), (3, 4), (4, 4)],
     [(2, 4), (3, 4), (4, 4), (5, 4)],
     [(0, 5), (1, 5), (2, 5), (3, 5)],
     [(1, 5), (2, 5), (3, 5), (4, 5)],
     [(2, 5), (3, 5), (4, 5), (5, 5)],
     [(0, 6), (1, 6), (2, 6), (3, 6)],
     [(1, 6), (2, 6), (3, 6), (4, 6)],
     [(2, 6), (3, 6), (4, 6), (5, 6)],
     [(0, 0), (1, 1), (2, 2), (3, 3)],
     [(0, 1), (1, 2), (2, 3), (3, 4)],
     [(0, 2), (1, 3), (2, 4), (3, 5)],
     [(0, 3), (1, 4), (2, 5), (3, 6)],
     [(1, 0), (2, 1), (3, 2), (4, 3)],
     [(1, 1), (2, 2), (3, 3), (4, 4)],
     [(1, 2), (2, 3), (3, 4), (4, 5)],
     [(1, 3), (2, 4), (3, 5), (4, 6)],
     [(2, 0), (3, 1), (4, 2), (5, 3)],
     [(2, 1), (3, 2), (4, 3), (5, 4)],
     [(2, 2), (3, 3), (4, 4), (5, 5)],
     [(2, 3), (3, 4), (4, 5), (5, 6)],
     [(4, 0), (3, 1), (2, 2), (1, 3)],
     [(4, 1), (3, 2), (2, 3), (1, 4)],
     [(4, 2), (3, 3), (2, 4), (1, 5)],
     [(4, 3), (3, 4), (2, 5), (1, 6)],
     [(5, 0), (4, 1), (3, 2), (2, 3)],
     [(5, 1), (4, 2), (3, 3), (2, 4)],
     [(5, 2), (4, 3), (3, 4), (2, 5)],
     [(5, 3), (4, 4), (3, 5), (2, 6)]]"
  by (simp add: WINNING_LINES_def generate_winning_lines_def horizontal_lines_def
      vertical_lines_def diagonal_falling_lines_def diagonal_rising_lines_def
      py_ranges ROWS_def COLUMNS_def)

lemma WINNING_LINES_valid: "\<forall>ln\<in>set WINNING_LINES. valid_line ln"
  by (simp add: WINNING_LINES_def generate_winning_lines_def horizontal_lines_def
      vertical_lines_def diagonal_falling_lines_def diagonal_rising_lines_def
      py_ranges ROWS_def COLUMNS_def valid_line_def in_grid_def)

lemma lines_by_position_lookup:
  assumes "in_grid (r, c)"
  shows "py_index WINNING_LINES_BY_POSITION r =
           Inr (map (generate_winning_lines_for_positions r) (py_range 0 COLUMNS))"
    and "py_index (map (generate_winning_lines_for_positions r) (py_range 0 COLUMNS)) c =
           Inr (generate_winning_lines_for_positions r c)"
  using assms
  by (simp_all add: WINNING_LINES_BY_POSITION_def in_grid_def py_index_map_range)

lemma line_get_cell:
  assumes "wf_grid g" "0 \<le> k" "k < int (length ln)" "in_grid (ln ! nat k)"
  shows "line_get g ln k = Inr (cell g (ln ! nat k))"
  using assms board_get_cell [of g "fst (ln ! nat k)" "snd (ln ! nat k)"]
  by (simp add: line_get_def py_index_nth)

lemma last_move_line_matches_abs:
  assumes "wf_grid g" "length ln = 3" "\<forall>pos\<in>set ln. in_grid pos"
  shows "last_move_line_matches g p ln = Inr (line_of_colour g p ln)"
proof -
  from assms(2) obtain x y z where ln: "ln = [x, y, z]"
    by (auto simp: length_Suc_conv numeral_3_eq_3)
  with assms have "line_get g ln 0 = Inr (cell g x)" "line_get g ln 1 = Inr (cell g y)"
    "line_get g ln 2 = Inr (cell g z)"
    by (simp_all add: line_get_cell)
  then show ?thesis
    by (auto simp: last_move_line_matches_def py_and_def line_of_colour_def ln)
qed

lemma check_lines_of_last_move_abs:
  assumes "wf_grid g" "\<forall>ln\<in>set lns. length ln = 3 \<and> (\<forall>pos\<in>set ln. in_grid pos)"
  shows "check_lines_of_last_move g p lns =
           Inr (if \<exists>ln\<in>set lns. line_of_colour g p ln then p else EMPTY)"
  using assms(2)
  by (induction lns) (simp_all add: last_move_line_matches_abs [OF assms(1)])

lemma board_line_full_abs:
  assumes "wf_grid g" "valid_line ln"
  shows "board_line_full g ln =
           Inr (cell g (ln ! 0) \<noteq> EMPTY \<and> line_of_colour g (cell g (ln ! 0)) ln)"
    and "line_get g ln 0 = Inr (cell g (ln ! 0))"
proof -
  from assms(2) obtain w x y z where ln: "ln = [w, x, y, z]"
    by (auto simp: valid_line_def length_Suc_conv numeral_eq_Suc)
  with assms have *: "line_get g ln 0 = Inr (cell g w)" "line_get g ln 1 = Inr (cell g x)"
    "line_get g ln 2 = Inr (cell g y)" "line_get g ln 3 = Inr (cell g z)"
    by (simp_all add: line_get_cell valid_line_def)
  then show "board_line_full g ln =
           Inr (cell g (ln ! 0) \<noteq> EMPTY \<and> line_of_colour g (cell g (ln ! 0)) ln)"
    by (auto simp: board_line_full_def line_cells_equal_def py_and_def line_of_colour_def ln)
  from * show "line_get g ln 0 = Inr (cell g (ln ! 0))"
    by (simp add: ln)
qed

lemma check_lines_of_board_abs:
  assumes "wf_grid g" "\<forall>ln\<in>set lns. valid_line ln"
  shows "\<exists>col. check_lines_of_board g lns = Inr col \<and>
           (if col = EMPTY
            then \<forall>ln\<in>set lns. \<forall>p. p \<noteq> EMPTY \<longrightarrow> \<not> line_of_colour g p ln
            else \<exists>ln\<in>set lns. line_of_colour g col ln)"
  using assms(2)
proof (induction lns)
  case Nil
  then show ?case by simp
next
  case (Cons ln lns)
  then have v: "valid_line ln" and vs: "\<forall>ln\<in>set lns. valid_line ln"
    by simp_all
  from v have ne: "ln ! 0 \<in> set ln"
    by (simp add: valid_line_def)
  show ?case
  proof (cases "cell g (ln ! 0) \<noteq> EMPTY \<and> line_of_colour g (cell g (ln ! 0)) ln")
    case True
    then show ?thesis
      by (simp add: board_line_full_abs [OF assms(1) v])
  next
    case False
    have "\<not> line_of_colour g p ln" if "p \<noteq> EMPTY" for p
    proof
      assume l: "line_of_colour g p ln"
      with ne have "cell g (ln ! 0) = p"
        by (simp add: line_of_colour_def)
      with l that False show False by simp
    qed
    with Cons.IH [OF vs] False show ?thesis
      by (auto simp: board_line_full_abs [OF assms(1) v])
  qed
qed

lemma lines_for_position_valid:
  assumes "ln' \<in> set (generate_winning_lines_for_positions r c)"
  shows "length ln' = 3 \<and> (\<forall>pos\<in>set ln'. in_grid pos)"
proof -
  from assms obtain ln where ln: "ln \<in> set WINNING_LINES" "(r, c) \<in> set ln"
    "ln' = remove1 (r, c) ln"
    by (auto simp: generate_winning_lines_for_positions_def)
  from ln(1) have "valid_line ln"
    using WINNING_LINES_valid by blast
  with ln(2,3) show ?thesis
    by (auto simp: valid_line_def length_remove1 dest: notin_set_remove1)
qed

lemma lines_for_position_colour:
  assumes "cell g (r, c) = p"
  shows "(\<exists>ln'\<in>set (generate_winning_lines_for_positions r c). line_of_colour g p ln') \<longleftrightarrow>
         wins_at g (r, c)"
proof -
  have "line_of_colour g p (remove1 (r, c) ln) \<longleftrightarrow> line_of_colour g p ln"
    if "ln \<in> set WINNING_LINES" for ln
  proof -
    from that have "distinct ln"
      using WINNING_LINES_valid by (auto simp: valid_line_def)
    then have "set (remove1 (r, c) ln) = set ln - {(r, c)}"
      by simp
    with assms show ?thesis
      by (auto simp: line_of_colour_def)
  qed
  with assms show ?thesis
    by (auto simp: generate_winning_lines_for_positions_def wins_at_def)
qed

lemma check_winner_from_last_move_abs:
  assumes "wf_grid (board b)" "in_grid (last_move b)"
  shows "check_winner_from_last_move b =
           Inr (if wins_at (board b) (last_move b) then cell (board b) (last_move b)
                else EMPTY)"
proof -
  obtain r c where lm: "last_move b = (r, c)"
    by (cases "last_move b")
  with assms(2) have ne: "r \<noteq> - 1" and ig: "in_grid (r, c)"
    by (auto simp: in_grid_def)
  have "check_lines_of_last_move (board b) (cell (board b) (r, c))
          (generate_winning_lines_for_positions r c) =
        Inr (if wins_at (board b) (r, c) then cell (board b) (r, c) else EMPTY)"
    using lines_for_position_valid [of _ r c]
    by (subst check_lines_of_last_move_abs [OF assms(1)])
       (auto simp: lines_for_position_colour)
  with ne ig show ?thesis
    by (simp add: check_winner_from_last_move_def lm board_get_cell [OF assms(1)]
        lines_by_position_lookup)
qed

lemma wins_at_code:
  "wins_at g pos =
     list_ex (\<lambda>ln. pos \<in> set ln \<and> list_all (\<lambda>q. cell g q = cell g pos) ln) WINNING_LINES"
  by (auto simp: wins_at_def line_of_colour_def list_ex_iff list_all_iff)

lemma check_winner_from_board_abs:
  assumes "wf_grid (board b)"
  shows "\<exists>col. check_winner_from_board b = Inr col \<and>
           (if col = EMPTY then no_full_line (board b)
            else \<exists>ln\<in>set WINNING_LINES. line_of_colour (board b) col ln)"
  using check_lines_of_board_abs [OF assms WINNING_LINES_valid]
  unfolding check_winner_from_board_def no_full_line_def by blast

lemma check_winner_ignores_winner:
  "check_winner_from_last_move (s\<lparr>winner := w\<rparr>) = check_winner_from_last_move s"
  by (simp add: check_winner_from_last_move_def Let_def cong: sum.case_cong)

lemma place_chip_winner:
  assumes "place_chip d s p c = Inr r"
  shows "check_winner_from_last_move (fst r) = Inr (winner (fst r))"
  using assms
  by (auto simp: place_chip_def Let_def check_winner_ignores_winner
      split: if_splits sum.splits)

section \<open>Placing a chip\<close>

lemma moves_list_placed:
  "moves_list (default_after d b c) (placed b p c) =
     (if column_height b c + 1 = ROWS then (moves_list d b)[nat c := False]
      else moves_list d b)"
  by (simp add: moves_list_def default_after_def placed_def Let_def split: moves_ref.splits)

lemma update_column_availability_placed:
  assumes "int (length (moves_list d b)) = COLUMNS" "0 \<le> c" "c < COLUMNS"
  shows "update_column_availability d (b\<lparr>board := g\<rparr>) c =
    Inr (b\<lparr>board := g, column_chip_count := counter_incr (column_chip_count b) c,
          available_moves := available_moves (placed b p c)\<rparr>, default_after d b c)"
proof (cases "available_moves b")
  case Default_moves
  with assms show ?thesis
    by (simp add: update_column_availability_def moves_store_def Let_def counter_incr_def
        counter_get_def column_height_def py_store_upd moves_list_def default_after_def
        placed_def)
next
  case (Own_moves xs)
  with assms show ?thesis
    by (simp add: update_column_availability_def moves_store_def Let_def counter_incr_def
        counter_get_def column_height_def py_store_upd moves_list_def default_after_def
        placed_def)
qed

lemma place_chip_placed:
  assumes "wf_grid (board b)" "int (length (moves_list d b)) = COLUMNS"
    "0 \<le> c" "c < COLUMNS" "0 \<le> column_height b c" "column_height b c < ROWS"
  shows "place_chip d b p c = Inr (placed b p c, default_after d b c)"
proof -
  let ?pos = "(ROWS - column_height b c - 1, c)"
  let ?g = "grid_update (board b) ?pos p"
  from assms have ig: "in_grid ?pos"
    by (simp add: in_grid_def)
  have wf: "wf_grid ?g"
    using assms(1) by (rule wf_grid_update)
  have c: "cell ?g ?pos = p"
    using assms(1) ig by (simp add: cell_grid_update)
  note upd = update_column_availability_placed [OF assms(2,3,4), of ?g p]
  have chk: "check_winner_from_last_move
     (b\<lparr>board := ?g, column_chip_count := counter_incr (column_chip_count b) c,
        available_moves := available_moves (placed b p c),
        moves_made := moves_made b + 1, last_move := ?pos\<rparr>) =
     Inr (if wins_at ?g ?pos then p else EMPTY)"
    using wf ig c by (subst check_winner_from_last_move_abs) simp_all
  from assms(6) have "\<not> ROWS - counter_get (column_chip_count b) c - 1 < 0"
    by (simp add: column_height_def)
  then show ?thesis
    using board_set_upd [OF assms(1) ig, of p] upd chk
    by (simp add: place_chip_def Let_def column_height_def) (simp add: placed_def Let_def column_height_def)
qed

lemma board_invariant_column:
  assumes "board_invariant d b" "0 \<le> c" "c < COLUMNS"
  shows "0 \<le> column_height b c" "column_height b c \<le> ROWS"
    "moves_list d b ! nat c \<Longrightarrow> column_height b c < ROWS"
  using assms by (simp_all add: board_invariant_def counts_invariant_def in_py_range)

lemma counts_invariant_column:
  assumes "counts_invariant b" "0 \<le> c" "c < COLUMNS"
  shows "0 \<le> column_height b c" "column_height b c \<le> ROWS"
  using assms by (simp_all add: counts_invariant_def in_py_range)

lemma board_invariant_wf_grid: "board_invariant d b \<Longrightarrow> wf_grid (board b)"
  by (simp add: board_invariant_def counts_invariant_def)

lemma board_invariant_length:
  "board_invariant d b \<Longrightarrow> int (length (moves_list d b)) = COLUMNS"
  by (simp add: board_invariant_def)

lemma move_available_flag:
  assumes "board_invariant d b" "0 \<le> c" "c < COLUMNS"
  shows "move_available d b c = Inr (moves_list d b ! nat c)"
  using assms by (simp add: board_invariant_def move_available_def py_index_nth)

lemma sum_list_counter_incr:
  "distinct xs \<Longrightarrow>
     sum_list (map (counter_get (counter_incr m c)) xs) =
     sum_list (map (counter_get m) xs) + (if c \<in> set xs then 1 else 0)"
  by (induction xs) (auto simp: counter_get_def counter_incr_def)

lemma counts_invariant_placed:
  assumes "counts_invariant b" "0 \<le> c" "c < COLUMNS" "column_height b c < ROWS"
  shows "counts_invariant (placed b p c)"
proof -
  have h: "column_height (placed b p c) k =
      (if k = c then column_height b c + 1 else column_height b k)" for k
    by (simp add: placed_def Let_def column_height_def counter_get_def counter_incr_def)
  have "column_height (placed b p c) = counter_get (counter_incr (column_chip_count b) c)"
    by (rule ext) (simp add: placed_def Let_def column_height_def)
  then have s: "sum_list (map (column_height (placed b p c)) (py_range 0 COLUMNS)) =
      sum_list (map (column_height b) (py_range 0 COLUMNS)) + 1"
    using assms(2,3) sum_list_counter_incr [of "py_range 0 COLUMNS" "column_chip_count b" c]
    by (simp add: in_py_range py_range_def) (simp add: column_height_def [abs_def])
  from assms(1) have "wf_grid (board (placed b p c))"
    by (simp add: placed_def Let_def counts_invariant_def wf_grid_update)
  moreover from assms(1) s have "moves_made (placed b p c) =
      sum_list (map (column_height (placed b p c)) (py_range 0 COLUMNS))"
    by (simp add: counts_invariant_def) (simp add: placed_def Let_def)
  moreover have "0 \<le> column_height (placed b p c) k \<and> column_height (placed b p c) k \<le> ROWS"
    if "0 \<le> k" "k < COLUMNS" for k
    using that assms by (auto simp: h counts_invariant_def in_py_range)
  ultimately show ?thesis
    by (simp add: counts_invariant_def in_py_range)
qed

lemma board_invariant_placed:
  assumes "board_invariant d b" "0 \<le> c" "c < COLUMNS" "column_height b c < ROWS"
  shows "board_invariant (default_after d b c) (placed b p c)"
proof -
  have h: "column_height (placed b p c) k =
      (if k = c then column_height b c + 1 else column_height b k)" for k
    by (simp add: placed_def Let_def column_height_def counter_get_def counter_incr_def)
  note am = moves_list_placed [of d b c p]
  have a: "column_height (placed b p c) k < ROWS"
    if "0 \<le> k" "k < COLUMNS" "moves_list (default_after d b c) (placed b p c) ! nat k" for k
  proof (cases "k = c")
    case True
    from assms(1,3) that have "nat k < length (moves_list d b)"
      by (simp add: board_invariant_def nat_less_iff)
    with that(3) True assms(4) show ?thesis
      by (auto simp: h am split: if_splits)
  next
    case False
    with that(1) assms(2) have "nat k \<noteq> nat c"
      by auto
    with that(3) have "moves_list d b ! nat k"
      by (auto simp: am split: if_splits)
    with board_invariant_column(3) [OF assms(1) that(1,2)] False show ?thesis
      by (simp add: h)
  qed
  from assms have "counts_invariant (placed b p c)"
    by (intro counts_invariant_placed) (simp_all add: board_invariant_def)
  moreover from assms(1) have
    "int (length (moves_list (default_after d b c) (placed b p c))) = COLUMNS"
    by (simp add: am board_invariant_def)
  ultimately show ?thesis
    using a by (simp add: board_invariant_def in_py_range)
qed

lemma counts_invariant_empty_board: "counts_invariant empty_board"
  by (simp add: counts_invariant_def empty_board_def init_Connect4Board_def wf_grid_def
      column_height_def counter_get_def py_ranges ROWS_def COLUMNS_def numeral_eq_Suc)

lemma length_initial_default_moves: "int (length initial_default_moves) = COLUMNS"
  by (simp add: initial_default_moves_def COLUMNS_def)

lemma place_chip_legal:
  assumes "board_invariant d b" "valid_input d b c"
  shows "place_chip d b p c = Inr (placed b p c, default_after d b c)"
    and "board_invariant (default_after d b c) (placed b p c)"
proof -
  from assms have c: "0 \<le> c" "c < COLUMNS"
    by (simp_all add: valid_input_def)
  with assms have h: "column_height b c < ROWS" "0 \<le> column_height b c"
    using board_invariant_column [OF assms(1) c]
    by (simp_all add: valid_input_def move_available_flag)
  from assms(1) c h show "place_chip d b p c = Inr (placed b p c, default_after d b c)"
    by (intro place_chip_placed) (simp_all add: board_invariant_def counts_invariant_def)
  from assms(1) c h show "board_invariant (default_after d b c) (placed b p c)"
    by (intro board_invariant_placed)
qed

lemma legal_placements_invariant:
  "board_invariant d b \<Longrightarrow> legal_placements d b ms = Some s \<Longrightarrow>
     board_invariant (snd s) (fst s)"
proof (induction ms arbitrary: d b)
  case Nil
  then show ?case by auto
next
  case (Cons m ms)
  from Cons.prems(2) have v: "valid_input d b (snd m)"
    by (simp split: if_splits)
  with Cons.prems show ?case
    using place_chip_legal [OF Cons.prems(1) v, of "fst m"]
      Cons.IH [of "default_after d b (snd m)" "placed b (fst m) (snd m)"]
    by (simp split: if_splits)
qed

lemma place_chip_full:
  assumes "column_height b c = ROWS"
  shows "place_chip d b p c = Inl (ValueError, b, d)"
  using assms by (simp add: place_chip_def column_height_def)

lemma placed_fields:
  "moves_made (placed b p c) = moves_made b + 1"
  "last_move (placed b p c) = (ROWS - column_height b c - 1, c)"
  "board (placed b p c) = grid_update (board b) (ROWS - column_height b c - 1, c) p"
  "winner (placed b p c) =
     (if wins_at (board (placed b p c)) (last_move (placed b p c)) then p else EMPTY)"
  "available_moves (placed b p c) =
     (case available_moves b of
        Default_moves \<Rightarrow> Default_moves
      | Own_moves xs \<Rightarrow>
          Own_moves (if column_height b c + 1 = ROWS then xs[nat c := False] else xs))"
  "column_height (placed b p c) k =
     (if k = c then column_height b c + 1 else column_height b k)"
  by (simp_all add: placed_def Let_def column_height_def counter_get_def counter_incr_def
      split: moves_ref.splits)

lemma empty_board_fields:
  "moves_made empty_board = 0"
  "last_move empty_board = (- 1, - 1)"
  "winner empty_board = EMPTY"
  "board empty_board = replicate 6 (replicate 7 EMPTY)"
  "available_moves empty_board = Default_moves"
  "column_height empty_board k = 0"
  by (auto simp: empty_board_def init_Connect4Board_def column_height_def counter_get_def
      py_ranges ROWS_def COLUMNS_def numeral_eq_Suc split: option.splits)

lemma board_invariant_empty_board:
  "int (length d) = COLUMNS \<Longrightarrow> board_invariant d empty_board"
  using counts_invariant_empty_board
  by (simp add: board_invariant_def moves_list_def empty_board_fields ROWS_def)

lemma valid_input_iff:
  assumes "board_invariant d b"
  shows "valid_input d b c \<longleftrightarrow> 0 \<le> c \<and> c < COLUMNS \<and> moves_list d b ! nat c"
proof (cases "0 \<le> c \<and> c < COLUMNS")
  case True
  then show ?thesis
    using move_available_flag [OF assms, of c] by (simp add: valid_input_def)
next
  case False
  then show ?thesis
    by (auto simp: valid_input_def)
qed

lemma legal_placements_step:
  assumes "board_invariant d b"
  shows "legal_placements d b (m # ms) =
     (if fst m \<noteq> EMPTY \<and> 0 \<le> snd m \<and> snd m < COLUMNS \<and> moves_list d b ! nat (snd m)
      then legal_placements (default_after d b (snd m)) (placed b (fst m) (snd m)) ms
      else None)"
proof (cases "valid_input d b (snd m)")
  case True
  then show ?thesis
    using place_chip_legal(1) [OF assms True, of "fst m"] valid_input_iff [OF assms, of "snd m"]
    by simp
next
  case False
  then show ?thesis
    using valid_input_iff [OF assms, of "snd m"] by auto
qed

lemma legal_placements_placed_all:
  "board_invariant d b \<Longrightarrow>
     legal_placements d b ms =
       (if all_legal d b ms then Some (placed_all b ms, default_after_all d b ms) else None)"
proof (induction ms arbitrary: d b)
  case Nil
  then show ?case by simp
next
  case (Cons m ms)
  show ?case
  proof (cases "fst m \<noteq> EMPTY \<and> 0 \<le> snd m \<and> snd m < COLUMNS \<and> moves_list d b ! nat (snd m)")
    case True
    with Cons.prems have "board_invariant (default_after d b (snd m)) (placed b (fst m) (snd m))"
      using board_invariant_column(3) [OF Cons.prems, of "snd m"]
      by (intro board_invariant_placed) simp_all
    from Cons.IH [OF this] True show ?thesis
      by (simp add: legal_placements_step [OF Cons.prems] del: legal_placements.simps)
  next
    case False
    then show ?thesis
      by (auto simp add: legal_placements_step [OF Cons.prems] simp del: legal_placements.simps)
  qed
qed

section \<open>Copies\<close>

lemma deepcopy_fields:
  "board (deepcopy d b) = board b"
  "column_chip_count (deepcopy d b) = column_chip_count b"
  "moves_made (deepcopy d b) = moves_made b"
  "last_move (deepcopy d b) = last_move b"
  "winner (deepcopy d b) = EMPTY"
  "available_moves (deepcopy d b) = Own_moves (moves_list d b)"
  "column_height (deepcopy d b) k = column_height b k"
  by (simp_all add: deepcopy_def init_Connect4Board_def Let_def column_height_def)

lemma moves_list_deepcopy: "moves_list d' (deepcopy d b) = moves_list d b"
  by (simp add: moves_list_def deepcopy_fields)

lemma default_after_deepcopy: "default_after d' (deepcopy d b) c = d'"
  by (simp add: default_after_def deepcopy_fields)

lemma counts_invariant_deepcopy: "counts_invariant (deepcopy d b) = counts_invariant b"
  by (simp add: counts_invariant_def deepcopy_fields column_height_def [abs_def])

lemma board_invariant_deepcopy: "board_invariant d' (deepcopy d b) = board_invariant d b"
  by (simp add: board_invariant_def counts_invariant_deepcopy moves_list_deepcopy
      deepcopy_fields)

lemma valid_input_deepcopy: "valid_input d' (deepcopy d b) c = valid_input d b c"
  by (simp add: valid_input_def move_available_def moves_list_deepcopy)

lemma winner_placed_deepcopy: "winner (placed (deepcopy d b) p c) = winner (placed b p c)"
  by (simp add: placed_def Let_def deepcopy_fields)

lemma place_chip_deepcopy:
  assumes "board_invariant d b" "valid_input d b c"
  shows "place_chip d' (deepcopy d b) p c = Inr (placed (deepcopy d b) p c, d')"
  using place_chip_legal(1) [of d' "deepcopy d b" c p] assms
  by (simp add: board_invariant_deepcopy valid_input_deepcopy default_after_deepcopy)

lemma board_invariant_placed_deepcopy:
  assumes "board_invariant d b" "0 \<le> c" "c < COLUMNS" "column_height b c < ROWS"
  shows "board_invariant d' (placed (deepcopy d b) p c)"
  using board_invariant_placed [of d' "deepcopy d b" c p] assms
  by (simp add: board_invariant_deepcopy default_after_deepcopy deepcopy_fields)

text \<open>
  A placement on a board that has a list of its own leaves the default list as it is,
  whether it returns or raises. The copies on which the solver places chips are such
  boards.
\<close>

lemma place_chip_own_default:
  assumes "available_moves b = Own_moves xs"
  shows "defaults_after (place_chip d b p c) = d"
  using assms
  by (auto simp: place_chip_def update_column_availability_def moves_store_def
      defaults_after_def Let_def split: sum.splits if_splits)

lemma place_chip_deepcopy_default:
  "defaults_after (place_chip d (deepcopy d' b) p c) = d"
  by (rule place_chip_own_default) (rule deepcopy_fields)

section \<open>Columns out of range\<close>

lemma winner_placed: "winner (placed b p c) = p \<or> winner (placed b p c) = EMPTY"
  by (simp add: placed_def Let_def)

lemma cell_placed:
  assumes "counts_invariant b" "0 \<le> c" "c < COLUMNS" "column_height b c < ROWS"
  shows "cell (board (placed b p c)) (last_move (placed b p c)) = p"
proof -
  from assms have "in_grid (ROWS - column_height b c - 1, c)"
    using counts_invariant_column(1) [OF assms(1,2,3)] by (simp add: in_grid_def)
  with assms(1) show ?thesis
    by (simp add: placed_def Let_def cell_grid_update counts_invariant_def)
qed

lemma check_winner_negative_column:
  assumes wf: "wf_grid (board s)" and lm: "last_move s = (r, c)"
    and r: "0 \<le> r" "r < ROWS" and c: "- COLUMNS \<le> c" "c < 0"
  shows "\<exists>w. check_winner_from_last_move s = Inr w"
proof -
  have ig: "in_grid (r, c + COLUMNS)"
    using r c by (simp add: in_grid_def)
  have len: "int (length (board s ! nat r)) = COLUMNS"
    using wf r by (rule wf_grid_row)
  from wf r have lr: "py_index (board s) r = Inr (board s ! nat r)"
    by (simp add: py_index_nth wf_grid_def)
  have bg: "board_get (board s) r c = Inr (cell (board s) (r, c + COLUMNS))"
    using c len by (simp add: board_get_def lr py_index_negative cell_def add.commute)
  have "int (length (py_range 0 COLUMNS)) = COLUMNS"
    by (simp add: py_range_def COLUMNS_def)
  then have tc: "py_index (map (generate_winning_lines_for_positions r) (py_range 0 COLUMNS)) c =
      Inr (generate_winning_lines_for_positions r (c + COLUMNS))"
    using c lines_by_position_lookup(2) [OF ig]
    by (simp add: py_index_def Let_def add.commute split: if_splits)
  from c have ne: "c \<noteq> - 1 \<or> r \<noteq> - 1"
    using r by simp
  have "\<exists>w. check_lines_of_last_move (board s) (cell (board s) (r, c + COLUMNS))
          (generate_winning_lines_for_positions r (c + COLUMNS)) = Inr w"
    using lines_for_position_valid [of _ r "c + COLUMNS"]
    by (subst check_lines_of_last_move_abs [OF wf]) auto
  with ne r show ?thesis
    by (auto simp: check_winner_from_last_move_def lm bg tc lines_by_position_lookup(1) [OF ig])
qed

lemma place_chip_negative_column:
  assumes wf: "wf_grid (board b)"
    and c: "- COLUMNS \<le> c" "c < 0"
    and h: "0 \<le> column_height b c" "column_height b c + 1 < ROWS"
  shows "raised (place_chip d b p c) = None"
    and "board (board_after (place_chip d b p c)) =
           grid_update (board b) (ROWS - column_height b c - 1, c + COLUMNS) p"
    and "moves_made (board_after (place_chip d b p c)) = moves_made b + 1"
    and "last_move (board_after (place_chip d b p c)) = (ROWS - column_height b c - 1, c)"
proof -
  let ?r = "ROWS - column_height b c - 1"
  let ?g = "grid_update (board b) (?r, c + COLUMNS) p"
  from h have r: "0 \<le> ?r" "?r < ROWS"
    by simp_all
  have len: "int (length (board b ! nat ?r)) = COLUMNS"
    using wf r by (rule wf_grid_row)
  from wf r have lr: "py_index (board b) ?r = Inr (board b ! nat ?r)"
    and sr: "\<And>x. py_store (board b) ?r x = Inr ((board b)[nat ?r := x])"
    by (simp_all add: py_index_nth py_store_upd wf_grid_def)
  have bs: "board_set (board b) ?r c p = Inr ?g"
    using c len by (simp add: board_set_def lr sr py_store_negative grid_update_def add.commute)
  let ?s2 = "b\<lparr>board := ?g, column_chip_count := counter_incr (column_chip_count b) c\<rparr>"
  have upd: "update_column_availability d (b\<lparr>board := ?g\<rparr>) c = Inr (?s2, d)"
    using h by (simp add: update_column_availability_def Let_def counter_incr_def
        counter_get_def column_height_def)
  let ?s4 = "?s2\<lparr>moves_made := moves_made b + 1, last_move := (?r, c)\<rparr>"
  have "wf_grid (board ?s4)"
    using wf by (simp add: wf_grid_update)
  from check_winner_negative_column [OF this _ r c, of ] obtain w where
    w: "check_winner_from_last_move ?s4 = Inr w"
    by auto
  from h have "\<not> ROWS - counter_get (column_chip_count b) c - 1 < 0"
    by (simp add: column_height_def)
  then have pc: "place_chip d b p c = Inr (?s4\<lparr>winner := w\<rparr>, d)"
    using bs upd w by (simp add: place_chip_def Let_def column_height_def)
  show "raised (place_chip d b p c) = None"
    and "board (board_after (place_chip d b p c)) = ?g"
    and "moves_made (board_after (place_chip d b p c)) = moves_made b + 1"
    and "last_move (board_after (place_chip d b p c)) = (?r, c)"
    by (simp_all add: pc raised_def board_after_def)
qed

lemma legal_placements_outside:
  assumes "board_invariant d b" "\<forall>k. k < 0 \<or> COLUMNS \<le> k \<longrightarrow> column_height b k = 0"
    "legal_placements d b ms = Some s"
  shows "\<forall>k. k < 0 \<or> COLUMNS \<le> k \<longrightarrow> column_height (fst s) k = 0"
  using assms
proof (induction ms arbitrary: d b)
  case Nil
  then show ?case by auto
next
  case (Cons m ms)
  from Cons.prems(3) have v: "valid_input d b (snd m)" and p: "fst m \<noteq> EMPTY"
    by (simp_all split: if_splits)
  let ?b1 = "placed b (fst m) (snd m)"
  let ?d1 = "default_after d b (snd m)"
  from place_chip_legal [OF Cons.prems(1) v, of "fst m"]
  have pc: "place_chip d b (fst m) (snd m) = Inr (?b1, ?d1)" and inv1: "board_invariant ?d1 ?b1"
    by simp_all
  from v have "0 \<le> snd m" "snd m < COLUMNS"
    by (simp_all add: valid_input_def)
  with Cons.prems(2) have "\<forall>k. k < 0 \<or> COLUMNS \<le> k \<longrightarrow> column_height ?b1 k = 0"
    by (auto simp: placed_fields(6))
  from Cons.IH [OF inv1 this] Cons.prems(3) v p pc show ?case
    by simp
qed

lemma place_chip_out_of_range:
  assumes "legal_placements d0 empty_board ms = Some (b, d)" "int (length d0) = COLUMNS"
    "COLUMNS \<le> c \<or> c < - COLUMNS"
  shows "move_available d b c = Inl IndexError"
    and "place_chip d b p c = Inl (IndexError, b, d)"
proof -
  have inv0: "board_invariant d0 empty_board"
    using assms(2) by (rule board_invariant_empty_board)
  have inv: "board_invariant d b"
    using legal_placements_invariant [OF inv0 assms(1)] by simp
  have "\<forall>k. k < 0 \<or> COLUMNS \<le> k \<longrightarrow> column_height (fst (b, d)) k = 0"
    using inv0 _ assms(1)
    by (rule legal_placements_outside) (simp add: empty_board_fields)
  with assms(3) have h: "column_height b c = 0"
    by (auto simp: COLUMNS_def)
  from inv have len: "int (length (moves_list d b)) = COLUMNS" and wf: "wf_grid (board b)"
    by (simp_all add: board_invariant_def counts_invariant_def)
  from len assms(3) show "move_available d b c = Inl IndexError"
    by (simp add: move_available_def py_index_error)
  have "int (length (board b ! nat 5)) = COLUMNS"
    using wf by (intro wf_grid_row) (simp_all add: ROWS_def)
  with assms(3) have "py_store (board b ! nat 5) c p = Inl IndexError"
    by (intro py_store_error) auto
  moreover from wf have "py_index (board b) 5 = Inr (board b ! nat 5)"
    by (simp add: py_index_nth wf_grid_def ROWS_def)
  ultimately have "board_set (board b) 5 c p = Inl IndexError"
    by (simp add: board_set_def)
  with h show "place_chip d b p c = Inl (IndexError, b, d)"
    by (simp add: place_chip_def column_height_def ROWS_def)
qed

section \<open>Agreement of the winner checks during a game\<close>

lemma checks_agree_placed:
  assumes inv: "counts_invariant b" and c: "0 \<le> c" "c < COLUMNS" "column_height b c < ROWS"
    and p: "p \<noteq> EMPTY" and none: "no_full_line (board b)"
  shows "check_winner_from_board (placed b p c) = Inr (winner (placed b p c))"
proof -
  let ?b' = "placed b p c"
  let ?pos = "last_move ?b'"
  from inv have wf: "wf_grid (board b)"
    by (simp add: counts_invariant_def)
  have pos: "in_grid ?pos"
    using c counts_invariant_column(1) [OF inv c(1,2)]
    by (simp add: placed_def Let_def in_grid_def)
  have g': "board ?b' = grid_update (board b) ?pos p"
    by (simp add: placed_def Let_def)
  have cp: "cell (board ?b') ?pos = p"
    using inv c by (rule cell_placed)
  have w: "winner ?b' = (if wins_at (board ?b') ?pos then p else EMPTY)"
    by (simp add: placed_def Let_def)
  have wf': "wf_grid (board ?b')"
    using wf by (simp add: g' wf_grid_update)
  have through: "?pos \<in> set ln \<and> q = p"
    if ln: "ln \<in> set WINNING_LINES" and q: "q \<noteq> EMPTY" and l: "line_of_colour (board ?b') q ln"
    for ln q
  proof -
    have "?pos \<in> set ln"
    proof (rule ccontr)
      assume notin: "?pos \<notin> set ln"
      have "cell (board b) x = q" if "x \<in> set ln" for x
      proof -
        from ln that have "in_grid x"
          using WINNING_LINES_valid by (auto simp: valid_line_def)
        moreover from that notin have "x \<noteq> ?pos" by auto
        ultimately have "cell (board ?b') x = cell (board b) x"
          using wf pos by (simp add: g' cell_grid_update)
        with l that show ?thesis
          by (simp add: line_of_colour_def)
      qed
      then have "line_of_colour (board b) q ln"
        by (simp add: line_of_colour_def)
      with none ln q show False
        by (simp add: no_full_line_def)
    qed
    moreover from this l cp have "q = p"
      by (auto simp: line_of_colour_def)
    ultimately show ?thesis ..
  qed
  from check_winner_from_board_abs [OF wf'] obtain col where
    col: "check_winner_from_board ?b' = Inr col"
    and ch: "if col = EMPTY then no_full_line (board ?b')
             else \<exists>ln\<in>set WINNING_LINES. line_of_colour (board ?b') col ln"
    by blast
  have "col = winner ?b'"
  proof (cases "col = EMPTY")
    case True
    with ch have "no_full_line (board ?b')" by simp
    with p cp have "\<not> wins_at (board ?b') ?pos"
      by (auto simp: wins_at_def no_full_line_def)
    with True w show ?thesis by simp
  next
    case False
    with ch obtain ln where ln: "ln \<in> set WINNING_LINES" "line_of_colour (board ?b') col ln"
      by auto
    from through [OF ln(1) False ln(2)] have "?pos \<in> set ln" "col = p"
      by simp_all
    with ln cp have "wins_at (board ?b') ?pos"
      by (auto simp: wins_at_def)
    with w \<open>col = p\<close> show ?thesis by simp
  qed
  with col show ?thesis by simp
qed

lemma checks_agree_empty_board: "checks_agree empty_board"
proof -
  have wf: "wf_grid (board empty_board)"
    using counts_invariant_empty_board by (simp add: counts_invariant_def)
  have e: "cell (board empty_board) x = EMPTY" if "in_grid x" for x
  proof -
    from that have "nat (fst x) < 6" "nat (snd x) < 7"
      by (auto simp: in_grid_def ROWS_def COLUMNS_def)
    then show ?thesis
      by (simp add: cell_def empty_board_fields)
  qed
  from check_winner_from_board_abs [OF wf] obtain col where
    col: "check_winner_from_board empty_board = Inr col"
    and ch: "if col = EMPTY then no_full_line (board empty_board)
             else \<exists>ln\<in>set WINNING_LINES. line_of_colour (board empty_board) col ln"
    by blast
  have "col = EMPTY"
  proof (rule ccontr)
    assume ne: "col \<noteq> EMPTY"
    with ch obtain ln where ln: "ln \<in> set WINNING_LINES" "line_of_colour (board empty_board) col ln"
      by auto
    from ln(1) have v: "valid_line ln"
      using WINNING_LINES_valid by blast
    then have "ln ! 0 \<in> set ln" "in_grid (ln ! 0)"
      by (simp_all add: valid_line_def)
    with ln(2) e [of "ln ! 0"] have "col = EMPTY"
      by (auto simp: line_of_colour_def)
    with ne show False by simp
  qed
  with col show ?thesis
    by (simp add: checks_agree_def check_winner_from_last_move_def empty_board_fields)
qed

lemma game_placements_agree:
  "board_invariant d b \<Longrightarrow> checks_agree b \<Longrightarrow> game_placements d b ms = Some s \<Longrightarrow>
     board_invariant (snd s) (fst s) \<and> checks_agree (fst s)"
proof (induction ms arbitrary: d b)
  case Nil
  then show ?case by auto
next
  case (Cons m ms)
  from Cons.prems(3) have sp: "still_playing b" and p: "fst m \<noteq> EMPTY"
    and v: "valid_input d b (snd m)"
    by (simp_all split: if_splits)
  let ?b1 = "placed b (fst m) (snd m)"
  let ?d1 = "default_after d b (snd m)"
  from place_chip_legal [OF Cons.prems(1) v, of "fst m"]
  have pc: "place_chip d b (fst m) (snd m) = Inr (?b1, ?d1)" and inv1: "board_invariant ?d1 ?b1"
    by simp_all
  from v Cons.prems(1) have c: "0 \<le> snd m" "snd m < COLUMNS" "moves_list d b ! nat (snd m)"
    by (simp_all add: valid_input_iff)
  from board_invariant_column(3) [OF Cons.prems(1) c] have h: "column_height b (snd m) < ROWS" .
  from Cons.prems(1) have ci: "counts_invariant b"
    by (simp add: board_invariant_def)
  from sp have "winner b = EMPTY"
    by (simp add: still_playing_def split: if_splits)
  with Cons.prems(2) have "check_winner_from_board b = Inr EMPTY"
    by (simp add: checks_agree_def)
  with check_winner_from_board_abs [of b] Cons.prems(1) have none: "no_full_line (board b)"
    by (auto simp: board_invariant_def counts_invariant_def)
  have "checks_agree ?b1"
    using checks_agree_placed [OF ci c(1,2) h p none] place_chip_winner [OF pc]
    by (simp add: checks_agree_def)
  with inv1 Cons.prems(3) sp p v pc show ?case
    using Cons.IH [of ?d1 ?b1] by simp
qed

section \<open>The loops of the solver\<close>

lemma wins_immediately_iff:
  assumes "board_invariant d b" "0 \<le> c" "c < COLUMNS"
  shows "wins_immediately d b p c \<longleftrightarrow>
           moves_list d b ! nat c \<and> winner (placed b p c) \<noteq> EMPTY"
proof (cases "moves_list d b ! nat c")
  case True
  with assms have "valid_input d b c"
    by (simp add: valid_input_iff)
  from place_chip_deepcopy [OF assms(1) this, of d p] True assms show ?thesis
    by (simp add: wins_immediately_def move_available_flag get_winner_def
        winner_placed_deepcopy)
next
  case False
  with assms show ?thesis
    by (simp add: wins_immediately_def move_available_flag)
qed

lemma solveNaive_loop_step:
  assumes "board_invariant d b" "0 \<le> col" "col < COLUMNS"
  shows "solveNaive_loop d b p col =
           (if wins_immediately d b p col then Inr col else solveNaive_loop d b p (col + 1))"
proof (cases "moves_list d b ! nat col")
  case True
  with assms have "valid_input d b col"
    by (simp add: valid_input_iff)
  from place_chip_deepcopy [OF assms(1) this, of d p] True assms show ?thesis
    by (subst solveNaive_loop.simps)
       (simp add: wins_immediately_def move_available_flag get_winner_def)
next
  case False
  with assms show ?thesis
    by (subst solveNaive_loop.simps)
       (simp add: wins_immediately_def move_available_flag)
qed

lemma solveNaive_loop_end: "COLUMNS \<le> col \<Longrightarrow> solveNaive_loop d b p col = Inr (- 1)"
  by (subst solveNaive_loop.simps) simp

lemma solveNaive_loop_spec:
  assumes "board_invariant d b"
  shows "0 \<le> col \<Longrightarrow>
    \<exists>k. solveNaive_loop d b p col = Inr k \<and>
      (if k = - 1 then \<forall>c. col \<le> c \<and> c < COLUMNS \<longrightarrow> \<not> wins_immediately d b p c
       else col \<le> k \<and> k < COLUMNS \<and> wins_immediately d b p k \<and>
            (\<forall>c. col \<le> c \<and> c < k \<longrightarrow> \<not> wins_immediately d b p c))"
proof (induction "nat (COLUMNS - col)" arbitrary: col)
  case 0
  then have "\<not> col < COLUMNS" by simp
  then show ?case
    by (subst solveNaive_loop.simps) auto
next
  case (Suc n)
  then have lt: "col < COLUMNS" and n: "n = nat (COLUMNS - (col + 1))" and nn: "0 \<le> col + 1"
    by simp_all
  note step = solveNaive_loop_step [OF assms Suc.prems lt, of p]
  show ?case
  proof (cases "wins_immediately d b p col")
    case True
    with step lt Suc.prems show ?thesis by auto
  next
    case False
    from Suc.hyps(1) [OF n nn] obtain k where
      k: "solveNaive_loop d b p (col + 1) = Inr k"
      and kk: "if k = - 1 then \<forall>c. col + 1 \<le> c \<and> c < COLUMNS \<longrightarrow> \<not> wins_immediately d b p c
       else col + 1 \<le> k \<and> k < COLUMNS \<and> wins_immediately d b p k \<and>
            (\<forall>c. col + 1 \<le> c \<and> c < k \<longrightarrow> \<not> wins_immediately d b p c)"
      by blast
    have less: "\<not> wins_immediately d b p c" if "col \<le> c" "\<not> col + 1 \<le> c" for c
    proof -
      from that have "c = col" by simp
      with False show ?thesis by simp
    qed
    from False step k have "solveNaive_loop d b p col = Inr k"
      by simp
    moreover have "if k = - 1 then \<forall>c. col \<le> c \<and> c < COLUMNS \<longrightarrow> \<not> wins_immediately d b p c
       else col \<le> k \<and> k < COLUMNS \<and> wins_immediately d b p k \<and>
            (\<forall>c. col \<le> c \<and> c < k \<longrightarrow> \<not> wins_immediately d b p c)"
    proof (cases "k = - 1")
      case True
      with kk less show ?thesis by force
    next
      case False
      with kk less show ?thesis
        by simp (metis add1_zle_eq order_less_le)
    qed
    ultimately show ?thesis by blast
  qed
qed

lemma place_chip_recursive_loop_step:
  assumes "board_invariant d b" "0 \<le> col"
  shows "place_chip_recursive_loop d b p depth col vs =
     (if col < COLUMNS \<and> moves_list d b ! nat col then
        (case (if winner (placed b p col) = EMPTY \<and> depth > 1 then
                 place_chip_recursive d (placed (deepcopy d b) p col) (alternate_colour p)
                   (depth - 1)
               else if winner (placed b p col) = EMPTY then Inr 0
               else Inr (player_value (winner (placed b p col)))) of
           Inl e \<Rightarrow> Inl e
         | Inr v \<Rightarrow>
             if v = player_value p then Inr (Return v)
             else place_chip_recursive_loop d b p depth (col + 1) (vs @ [v]))
      else Inr (Fallthrough vs))"
proof (cases "col < COLUMNS")
  case False
  then show ?thesis
    by (subst place_chip_recursive_loop.simps) simp
next
  case lt: True
  show ?thesis
  proof (cases "moves_list d b ! nat col")
    case True
    with assms lt have "valid_input d b col"
      by (simp add: valid_input_iff)
    from place_chip_deepcopy [OF assms(1) this, of d p] True assms lt show ?thesis
      by (subst place_chip_recursive_loop.simps)
         (simp add: move_available_flag get_winner_def winner_placed_deepcopy)
  next
    case False
    with assms lt show ?thesis
      by (subst place_chip_recursive_loop.simps) (simp add: move_available_flag)
  qed
qed

lemma solve_minimax_loop_step:
  assumes "board_invariant d b" "0 \<le> col" "col < COLUMNS"
  shows "solve_minimax_loop d b p depth vs (col # cols) =
     (if \<not> moves_list d b ! nat col then
        solve_minimax_loop d b p depth (vs @ [minus_inf_times (player_value p)]) cols
      else
        (case place_chip_recursive d (placed (deepcopy d b) p col) (alternate_colour p) depth of
           Inl e \<Rightarrow> Inl e
         | Inr v \<Rightarrow> solve_minimax_loop d b p depth (vs @ [Finite v]) cols))"
proof (cases "moves_list d b ! nat col")
  case True
  with assms have "valid_input d b col"
    by (simp add: valid_input_iff)
  from place_chip_deepcopy [OF assms(1) this, of d p] True assms show ?thesis
    by (simp add: move_available_flag solve_minimax_loop.simps(2))
next
  case False
  with assms show ?thesis
    by (simp add: move_available_flag solve_minimax_loop.simps(2))
qed

lemma place_chip_recursive_first_column_full:
  assumes "move_available d game 0 = Inr False"
  shows "place_chip_recursive_loop d game player depth 0 [] = Inr (Fallthrough [])"
    and "place_chip_recursive d game player depth = Inr 0"
proof -
  show *: "place_chip_recursive_loop d game player depth 0 [] = Inr (Fallthrough [])"
    using assms by (subst place_chip_recursive_loop.simps) (simp add: COLUMNS_def)
  show "place_chip_recursive d game player depth = Inr 0"
    by (subst place_chip_recursive.simps) (simp add: *)
qed

subsection \<open>Depth 1\<close>

text \<open>
  At depth 1 a search node is worth 0 or the value of the colour that moves at the node,
  so no entry of the list that \<open>solve_minimax\<close> returns is the value of the colour
  it is called for.
\<close>

lemma fold_max_zeros: "\<forall>v\<in>set xs. v = (0::int) \<Longrightarrow> fold max xs 0 = 0"
  by (induction xs) simp_all

lemma fold_min_zeros: "\<forall>v\<in>set xs. v = (0::int) \<Longrightarrow> fold min xs 0 = 0"
  by (induction xs) simp_all

lemma player_value_nonzero: "player_value q \<noteq> 0"
  by (simp add: player_value_def)

lemma player_value_alternate: "player_value (alternate_colour p) \<noteq> player_value p"
  by (simp add: player_value_def alternate_colour_def)

lemma place_chip_recursive_loop_depth_1:
  assumes "board_invariant d b"
  shows "0 \<le> col \<Longrightarrow> \<forall>v\<in>set vs. v = 0 \<Longrightarrow>
    place_chip_recursive_loop d b q 1 col vs = Inr (Return (player_value q)) \<or>
    (\<exists>vs'. place_chip_recursive_loop d b q 1 col vs = Inr (Fallthrough vs') \<and>
       (\<forall>v\<in>set vs'. v = 0))"
proof (induction "nat (COLUMNS - col)" arbitrary: col vs)
  case 0
  then have "\<not> col < COLUMNS" by simp
  with 0 show ?case
    by (simp add: place_chip_recursive_loop_step [OF assms])
next
  case (Suc n)
  then have lt: "col < COLUMNS" and n: "n = nat (COLUMNS - (col + 1))" and nn: "0 \<le> col + 1"
    by simp_all
  note step = place_chip_recursive_loop_step [OF assms Suc.prems(1), of q 1 vs]
  show ?case
  proof (cases "moves_list d b ! nat col")
    case False
    with step Suc.prems show ?thesis by simp
  next
    case True
    show ?thesis
    proof (cases "winner (placed b q col) = EMPTY")
      case e: True
      have "\<forall>v\<in>set (vs @ [0]). v = (0::int)"
        using Suc.prems(2) by simp
      from Suc.hyps(1) [OF n nn this] step lt True e show ?thesis
        by (simp add: player_value_nonzero)
    next
      case False
      with winner_placed [of b q col] have "winner (placed b q col) = q"
        by simp
      with step lt True False show ?thesis
        by simp
    qed
  qed
qed

lemma place_chip_recursive_depth_1:
  assumes "board_invariant d b"
  shows "place_chip_recursive d b q 1 = Inr 0 \<or>
         place_chip_recursive d b q 1 = Inr (player_value q)"
proof -
  from place_chip_recursive_loop_depth_1 [OF assms, of 0 "[]" q]
  consider "place_chip_recursive_loop d b q 1 0 [] = Inr (Return (player_value q))"
    | vs' where "place_chip_recursive_loop d b q 1 0 [] = Inr (Fallthrough vs')"
      "\<forall>v\<in>set vs'. v = 0"
    by auto
  then show ?thesis
  proof cases
    case 1
    then show ?thesis
      by (simp add: place_chip_recursive.simps)
  next
    case 2
    show ?thesis
    proof (cases vs')
      case Nil
      with 2 show ?thesis
        by (simp add: place_chip_recursive.simps)
    next
      case (Cons x xs)
      with 2 have "x = 0" "\<forall>v\<in>set xs. v = 0"
        by simp_all
      with 2(1) Cons show ?thesis
        by (simp add: place_chip_recursive.simps fold_max_zeros fold_min_zeros)
    qed
  qed
qed

lemma solve_minimax_loop_depth_1:
  assumes "board_invariant d b"
  shows "\<forall>c\<in>set cols. 0 \<le> c \<and> c < COLUMNS \<Longrightarrow> Finite (player_value p) \<notin> set vs \<Longrightarrow>
    \<exists>res. solve_minimax_loop d b p 1 vs cols = Inr res \<and>
      length res = length vs + length cols \<and> Finite (player_value p) \<notin> set res"
proof (induction cols arbitrary: vs)
  case Nil
  then show ?case by simp
next
  case (Cons c cols)
  then have c: "0 \<le> c" "c < COLUMNS" and cs: "\<forall>c\<in>set cols. 0 \<le> c \<and> c < COLUMNS"
    by simp_all
  note step = solve_minimax_loop_step [OF assms c, of p 1 vs cols]
  show ?case
  proof (cases "moves_list d b ! nat c")
    case False
    have "Finite (player_value p) \<notin> set (vs @ [minus_inf_times (player_value p)])"
      using Cons.prems(2) by (simp add: minus_inf_times_def)
    from Cons.IH [OF cs this] step False show ?thesis
      by simp
  next
    case True
    from board_invariant_column(3) [OF assms c True]
    have inv: "board_invariant d (placed (deepcopy d b) p c)"
      using assms c by (intro board_invariant_placed_deepcopy)
    from place_chip_recursive_depth_1 [OF inv, of "alternate_colour p"]
    obtain v where
      v: "place_chip_recursive d (placed (deepcopy d b) p c) (alternate_colour p) 1 = Inr v"
      and "v = 0 \<or> v = player_value (alternate_colour p)"
      by auto
    then have "v \<noteq> player_value p"
      using player_value_nonzero [of p] player_value_alternate [of p] by auto
    with Cons.prems(2) have "Finite (player_value p) \<notin> set (vs @ [Finite v])"
      by simp
    from Cons.IH [OF cs this] step True v show ?thesis
      by simp
  qed
qed

lemma solve_minimax_depth_1:
  assumes "board_invariant d b"
  shows "\<exists>res. solve_minimax d b p 1 = Inr res \<and> length res = 7 \<and>
           Finite (player_value p) \<notin> set res"
  using solve_minimax_loop_depth_1 [OF assms, of "py_range 0 COLUMNS" p "[]"]
  by (simp add: solve_minimax_def in_py_range) (simp add: py_range_def COLUMNS_def)

section \<open>Evaluation on concrete boards\<close>

lemma initial_default_moves_explicit:
  "initial_default_moves = [True, True, True, True, True, True, True]"
  by (simp add: initial_default_moves_def COLUMNS_def numeral_eq_Suc)

lemma game_placements_step:
  assumes "board_invariant d b"
  shows "game_placements d b (m # ms) =
     (if still_playing b \<and> fst m \<noteq> EMPTY \<and> 0 \<le> snd m \<and> snd m < COLUMNS \<and>
         moves_list d b ! nat (snd m)
      then game_placements (default_after d b (snd m)) (placed b (fst m) (snd m)) ms
      else None)"
proof (cases "valid_input d b (snd m)")
  case True
  then show ?thesis
    using place_chip_legal(1) [OF assms True, of "fst m"] valid_input_iff [OF assms, of "snd m"]
    by simp
next
  case False
  then show ?thesis
    using valid_input_iff [OF assms, of "snd m"] by auto
qed

lemma game_placements_placed_all:
  "board_invariant d b \<Longrightarrow>
     game_placements d b ms =
       (if all_playing d b ms then Some (placed_all b ms, default_after_all d b ms) else None)"
proof (induction ms arbitrary: d b)
  case Nil
  then show ?case by simp
next
  case (Cons m ms)
  show ?case
  proof (cases "still_playing b \<and> fst m \<noteq> EMPTY \<and> 0 \<le> snd m \<and> snd m < COLUMNS \<and>
      moves_list d b ! nat (snd m)")
    case True
    with Cons.prems have "board_invariant (default_after d b (snd m)) (placed b (fst m) (snd m))"
      using board_invariant_column(3) [OF Cons.prems, of "snd m"]
      by (intro board_invariant_placed) simp_all
    from Cons.IH [OF this] True show ?thesis
      by (simp add: game_placements_step [OF Cons.prems] del: game_placements.simps)
  next
    case False
    then show ?thesis
      by (auto simp add: game_placements_step [OF Cons.prems] simp del: game_placements.simps)
  qed
qed

lemma check_winner_from_last_move_placed:
  assumes "counts_invariant b" "0 \<le> c" "c < COLUMNS" "column_height b c < ROWS"
  shows "check_winner_from_last_move (placed b p c) = Inr (winner (placed b p c))"
proof -
  from assms have wf: "wf_grid (board (placed b p c))"
    by (simp add: placed_fields counts_invariant_def wf_grid_update)
  from assms have ig: "in_grid (last_move (placed b p c))"
    using counts_invariant_column(1) [OF assms(1,2,3)] by (simp add: placed_fields in_grid_def)
  from check_winner_from_last_move_abs [OF wf ig] cell_placed [OF assms, of p] show ?thesis
    by (simp add: placed_fields(4))
qed

lemmas run_simps = board_invariant_def counts_invariant_empty_board counts_invariant_placed
  counts_invariant_deepcopy placed_fields deepcopy_fields empty_board_fields moves_list_def
  default_after_def initial_default_moves_explicit py_range_0_7 ROWS_def COLUMNS_def

lemmas copy_simps = board_invariant_placed_deepcopy placed_fields deepcopy_fields
  empty_board_fields moves_list_def ROWS_def COLUMNS_def

lemmas grid_simps = wins_at_code cell_def grid_update_def WINNING_LINES_explicit numeral_eq_Suc

lemmas search_simps = solve_minimax_def solve_minimax_loop_step place_chip_recursive_loop_step
  place_chip_recursive.simps py_range_0_7 player_value_def alternate_colour_def
  minus_inf_times_def

section \<open>The claims\<close>

subsection \<open>C1: the winner after a further placement\<close>

text \<open>
  Claim C1 says that once the winner field is not \<open>EMPTY\<close>, a further legal
  placement leaves it unchanged. \<open>place_chip\<close> assigns the result of
  \<open>check_winner_from_last_move\<close> to the field on every call: after red has won
  with four chips in column 0, a yellow chip in column 2 sets the field back to
  \<open>EMPTY\<close>.
\<close>

theorem winner_reset_counterexample:
  "map_option (winner \<circ> fst) (legal_placements initial_default_moves empty_board
       [(RED, 0), (YELLOW, 1), (RED, 0), (YELLOW, 1), (RED, 0), (YELLOW, 1), (RED, 0)]) = Some RED \<and>
   map_option (winner \<circ> fst) (legal_placements initial_default_moves empty_board
       [(RED, 0), (YELLOW, 1), (RED, 0), (YELLOW, 1), (RED, 0), (YELLOW, 1), (RED, 0),
       (YELLOW, 2)]) = Some EMPTY"
  by (simp add: legal_placements_placed_all run_simps grid_simps del: legal_placements.simps)

text \<open>
  C1 as amended: on a board reached by legal placements from \<open>Connect4Board()\<close>,
  whatever the default list held when the board was made, a legal placement returns,
  and the winner field afterwards is what \<open>check_winner_from_last_move\<close> gives
  for the new board: the colour just placed if a generated line through the new chip is
  filled with it, and \<open>EMPTY\<close> otherwise. So a winner that was set is not kept by
  a placement of the other colour.
\<close>

theorem winner_reevaluated_by_place_chip:
  assumes "int (length d0) = COLUMNS" "legal_placements d0 empty_board ms = Some (b, d)"
    "player \<noteq> EMPTY" "valid_input d b column"
  shows "\<exists>b' d'. place_chip d b player column = Inr (b', d') \<and>
           check_winner_from_last_move b' = Inr (winner b') \<and>
           winner b' = (if wins_at (board b') (last_move b') then player else EMPTY) \<and>
           (winner b \<noteq> EMPTY \<and> player \<noteq> winner b \<longrightarrow> winner b' \<noteq> winner b)"
proof -
  have inv: "board_invariant d b"
    using legal_placements_invariant [OF board_invariant_empty_board [OF assms(1)] assms(2)]
    by simp
  have pc: "place_chip d b player column =
      Inr (placed b player column, default_after d b column)"
    using inv assms(4) by (rule place_chip_legal)
  have "check_winner_from_last_move (placed b player column) =
      Inr (winner (placed b player column))"
    using place_chip_winner [OF pc] by simp
  moreover have "winner (placed b player column) =
      (if wins_at (board (placed b player column)) (last_move (placed b player column))
       then player else EMPTY)"
    by (rule placed_fields)
  moreover from this have "winner b \<noteq> EMPTY \<and> player \<noteq> winner b \<longrightarrow>
      winner (placed b player column) \<noteq> winner b"
    by auto
  ultimately show ?thesis
    using pc by blast
qed

theorem winner_reevaluated_by_place_chip_witness:
  "legal_placements initial_default_moves empty_board
       [(RED, 0), (YELLOW, 1), (RED, 0), (YELLOW, 1), (RED, 0), (YELLOW, 1), (RED, 0)] =
     Some ((placed_all empty_board
       [(RED, 0), (YELLOW, 1), (RED, 0), (YELLOW, 1), (RED, 0), (YELLOW, 1), (RED, 0)]), initial_default_moves) \<and>
   valid_input initial_default_moves (placed_all empty_board
       [(RED, 0), (YELLOW, 1), (RED, 0), (YELLOW, 1), (RED, 0), (YELLOW, 1), (RED, 0)]) 2 \<and>
   winner (placed_all empty_board
       [(RED, 0), (YELLOW, 1), (RED, 0), (YELLOW, 1), (RED, 0), (YELLOW, 1), (RED, 0)]) = RED \<and>
   (\<exists>b' d'. place_chip initial_default_moves (placed_all empty_board
       [(RED, 0), (YELLOW, 1), (RED, 0), (YELLOW, 1), (RED, 0), (YELLOW, 1), (RED, 0)]) YELLOW 2 = Inr (b', d') \<and>
         check_winner_from_last_move b' = Inr (winner b') \<and> winner b' \<noteq> RED)"
proof -
  let ?b = "(placed_all empty_board
       [(RED, 0), (YELLOW, 1), (RED, 0), (YELLOW, 1), (RED, 0), (YELLOW, 1), (RED, 0)])"
  have r: "legal_placements initial_default_moves empty_board
       [(RED, 0), (YELLOW, 1), (RED, 0), (YELLOW, 1), (RED, 0), (YELLOW, 1), (RED, 0)] = Some (?b, initial_default_moves)"
    by (simp add: legal_placements_placed_all run_simps del: legal_placements.simps)
  have v: "valid_input initial_default_moves ?b 2"
    by (simp add: valid_input_iff run_simps)
  have w: "winner ?b = RED"
    by (simp add: run_simps grid_simps)
  have "YELLOW \<noteq> EMPTY" by simp
  from winner_reevaluated_by_place_chip [OF length_initial_default_moves r this v] w r v
  show ?thesis
    by auto
qed

subsection \<open>C2: the two winner checks\<close>

text \<open>
  Claim C2 says that \<open>check_winner_from_last_move\<close> and
  \<open>check_winner_from_board\<close> return the same colour on every board reached by
  legal placements. After red has filled a line in column 3 and yellow has then placed
  a chip in column 1, the check from the last move returns \<open>EMPTY\<close> and the scan of
  the board returns \<open>RED\<close>.
\<close>

theorem winner_checks_differ_counterexample:
  "map_option (check_winner_from_last_move \<circ> fst) (legal_placements initial_default_moves empty_board
       [(RED, 3), (YELLOW, 0), (RED, 3), (YELLOW, 0), (RED, 3), (YELLOW, 0), (RED, 3),
       (YELLOW, 1)]) = Some (Inr EMPTY) \<and>
   map_option (check_winner_from_board \<circ> fst) (legal_placements initial_default_moves empty_board
       [(RED, 3), (YELLOW, 0), (RED, 3), (YELLOW, 0), (RED, 3), (YELLOW, 0), (RED, 3),
       (YELLOW, 1)]) = Some (Inr RED)"
proof -
  have "check_winner_from_board (placed_all empty_board
       [(RED, 3), (YELLOW, 0), (RED, 3), (YELLOW, 0), (RED, 3), (YELLOW, 0), (RED, 3),
       (YELLOW, 1)]) = Inr RED"
    by (simp add: check_winner_from_board_def WINNING_LINES_explicit board_line_full_def
        line_cells_equal_def line_get_def board_get_def py_index_def py_and_def
        placed_fields empty_board_fields grid_update_def ROWS_def numeral_eq_Suc)
  moreover have "check_winner_from_last_move (placed_all empty_board
       [(RED, 3), (YELLOW, 0), (RED, 3), (YELLOW, 0), (RED, 3), (YELLOW, 0), (RED, 3),
       (YELLOW, 1)]) = Inr EMPTY"
    by (simp add: check_winner_from_last_move_placed run_simps grid_simps)
  ultimately show ?thesis
    by (simp add: legal_placements_placed_all run_simps del: legal_placements.simps)
qed

text \<open>
  C2 as amended: on every board reached from \<open>Connect4Board()\<close>, whatever the
  default list held when the board was made, by legal placements that are each made
  while \<open>still_playing\<close> holds, as \<open>play\<close> makes them, the two checks return
  the same colour, which is the winner field.
\<close>

theorem winner_checks_agree_during_game:
  assumes "int (length d0) = COLUMNS" "game_placements d0 empty_board ms = Some (b, d)"
  shows "check_winner_from_last_move b = check_winner_from_board b \<and>
         check_winner_from_board b = Inr (winner b)"
  using game_placements_agree [OF board_invariant_empty_board [OF assms(1)]
      checks_agree_empty_board assms(2)]
  by (simp add: checks_agree_def)

theorem winner_checks_agree_during_game_witness:
  "game_placements initial_default_moves empty_board
       [(RED, 2), (YELLOW, 2), (RED, 3), (YELLOW, 3), (RED, 4), (YELLOW, 4), (RED, 5)] =
     Some ((placed_all empty_board
       [(RED, 2), (YELLOW, 2), (RED, 3), (YELLOW, 3), (RED, 4), (YELLOW, 4), (RED, 5)]), initial_default_moves) \<and>
   check_winner_from_last_move (placed_all empty_board
       [(RED, 2), (YELLOW, 2), (RED, 3), (YELLOW, 3), (RED, 4), (YELLOW, 4), (RED, 5)]) = Inr RED \<and>
   check_winner_from_board (placed_all empty_board
       [(RED, 2), (YELLOW, 2), (RED, 3), (YELLOW, 3), (RED, 4), (YELLOW, 4), (RED, 5)]) = Inr RED"
proof -
  have r: "game_placements initial_default_moves empty_board
       [(RED, 2), (YELLOW, 2), (RED, 3), (YELLOW, 3), (RED, 4), (YELLOW, 4), (RED, 5)] =
     Some ((placed_all empty_board
       [(RED, 2), (YELLOW, 2), (RED, 3), (YELLOW, 3), (RED, 4), (YELLOW, 4), (RED, 5)]), initial_default_moves)"
    by (simp add: game_placements_placed_all run_simps grid_simps still_playing_def
        del: game_placements.simps)
  have w: "winner (placed_all empty_board
       [(RED, 2), (YELLOW, 2), (RED, 3), (YELLOW, 3), (RED, 4), (YELLOW, 4), (RED, 5)]) = RED"
    by (simp add: run_simps grid_simps)
  from winner_checks_agree_during_game [OF length_initial_default_moves r] w r show ?thesis
    by simp
qed

subsection \<open>C3: the number of generated lines\<close>

text \<open>
  Claim C3 says that the generation produces 69 lines: 24 horizontal, 21 vertical, 12
  falling and 12 rising diagonals. \<open>generate_winning_lines\<close> produces 65: the loop
  over the rising diagonals starts at row 4 (\<open>range(4, ROWS)\<close>), so it makes the 8
  that start in rows 4 and 5 and omits the 4 that start in row 3, such as the one from
  (3, 0) up to (0, 3).
\<close>

theorem generate_winning_lines_count:
  "length generate_winning_lines = 65 \<and>
   length horizontal_lines = 24 \<and>
   length vertical_lines = 21 \<and>
   length diagonal_falling_lines = 12 \<and>
   length diagonal_rising_lines = 8 \<and>
   [(3, 0), (2, 1), (1, 2), (0, 3)] \<notin> set generate_winning_lines"
proof -
  have "[(3, 0), (2, 1), (1, 2), (0, 3)] \<notin> set WINNING_LINES"
    by (simp add: WINNING_LINES_explicit)
  then show ?thesis
    by (simp add: generate_winning_lines_def length_horizontal_lines length_vertical_lines
        length_diagonal_falling_lines length_diagonal_rising_lines WINNING_LINES_def)
qed

subsection \<open>C4: the value of an immediately winning column\<close>

text \<open>
  Claim C4 says that \<open>solve_minimax\<close> at depth 1 gives a column where the mover
  wins at once the mover's best value, 1 for red. \<open>solve_minimax\<close> places the
  mover's chip and passes the board to \<open>place_chip_recursive\<close> for the other
  colour without looking at the winner, as \<open>place_chip_recursive\<close> does after each
  of its own placements. On the board below red wins at once in column 0 (three red
  chips are stacked there), and the value of column 0 is -1: yellow's reply in column
  1 fills a yellow line. At depth 1 no column is ever given the mover's best value
  (lemma \<open>solve_minimax_depth_1\<close>).
\<close>

theorem solve_minimax_winning_column:
  "legal_placements initial_default_moves empty_board
       [(RED, 0), (YELLOW, 1), (RED, 0), (YELLOW, 1), (RED, 0), (YELLOW, 1)] =
     Some ((placed_all empty_board
       [(RED, 0), (YELLOW, 1), (RED, 0), (YELLOW, 1), (RED, 0), (YELLOW, 1)]), initial_default_moves) \<and>
   wins_immediately initial_default_moves (placed_all empty_board
       [(RED, 0), (YELLOW, 1), (RED, 0), (YELLOW, 1), (RED, 0), (YELLOW, 1)]) RED 0 \<and>
   solveNaive initial_default_moves (placed_all empty_board
       [(RED, 0), (YELLOW, 1), (RED, 0), (YELLOW, 1), (RED, 0), (YELLOW, 1)]) RED = Inr 0 \<and>
   solve_minimax initial_default_moves (placed_all empty_board
       [(RED, 0), (YELLOW, 1), (RED, 0), (YELLOW, 1), (RED, 0), (YELLOW, 1)]) RED 1 =
     Inr [Finite (- 1), Finite 0, Finite (- 1), Finite (- 1), Finite (- 1), Finite (- 1),
          Finite (- 1)]"
proof -
  have inv: "board_invariant [True, True, True, True, True, True, True]
     (placed_all empty_board
       [(RED, 0), (YELLOW, 1), (RED, 0), (YELLOW, 1), (RED, 0), (YELLOW, 1)])"
    by (simp add: run_simps)
  note inv' = inv [simplified placed_all.simps fst_conv snd_conv]
  have "legal_placements initial_default_moves empty_board
       [(RED, 0), (YELLOW, 1), (RED, 0), (YELLOW, 1), (RED, 0), (YELLOW, 1)] = Some ((placed_all empty_board
       [(RED, 0), (YELLOW, 1), (RED, 0), (YELLOW, 1), (RED, 0), (YELLOW, 1)]), initial_default_moves)"
    by (simp add: legal_placements_placed_all run_simps del: legal_placements.simps)
  moreover have "wins_immediately initial_default_moves (placed_all empty_board
       [(RED, 0), (YELLOW, 1), (RED, 0), (YELLOW, 1), (RED, 0), (YELLOW, 1)]) RED 0"
    by (simp add: wins_immediately_iff run_simps grid_simps)
  moreover have "solveNaive initial_default_moves (placed_all empty_board
       [(RED, 0), (YELLOW, 1), (RED, 0), (YELLOW, 1), (RED, 0), (YELLOW, 1)]) RED = Inr 0"
    by (simp add: solveNaive_def solveNaive_loop_step wins_immediately_iff run_simps
        grid_simps)
  moreover have "solve_minimax initial_default_moves (placed_all empty_board
       [(RED, 0), (YELLOW, 1), (RED, 0), (YELLOW, 1), (RED, 0), (YELLOW, 1)]) RED 1 =
     Inr [Finite (- 1), Finite 0, Finite (- 1), Finite (- 1), Finite (- 1), Finite (- 1),
          Finite (- 1)]"
    by (simp add: search_simps inv' initial_default_moves_explicit copy_simps grid_simps)
  ultimately show ?thesis
    by (intro conjI)
qed

subsection \<open>C5: the columns a search node tries\<close>

text \<open>
  Claim C5 says that every call of \<open>place_chip_recursive\<close> tries each open column
  until the cutoff, also an open column to the right of a full one. The loop
  condition is \<open>col < COLUMNS and game.move_available(col)\<close>, so the loop ends at
  the first full column. On the board below column 0 is full and red wins at once in
  column 1; the loop tries no column, and the value of the node is 0.
\<close>

theorem place_chip_recursive_full_column:
  "legal_placements initial_default_moves empty_board
       [(RED, 0), (YELLOW, 0), (RED, 0), (YELLOW, 0), (RED, 0), (YELLOW, 0), (RED, 1),
       (YELLOW, 2), (RED, 1), (YELLOW, 2), (RED, 1), (YELLOW, 2)] =
     Some ((placed_all empty_board
       [(RED, 0), (YELLOW, 0), (RED, 0), (YELLOW, 0), (RED, 0), (YELLOW, 0), (RED, 1),
       (YELLOW, 2), (RED, 1), (YELLOW, 2), (RED, 1), (YELLOW, 2)]),
           [False, True, True, True, True, True, True]) \<and>
   move_available [False, True, True, True, True, True, True]
     (placed_all empty_board
       [(RED, 0), (YELLOW, 0), (RED, 0), (YELLOW, 0), (RED, 0), (YELLOW, 0), (RED, 1),
       (YELLOW, 2), (RED, 1), (YELLOW, 2), (RED, 1), (YELLOW, 2)]) 0 = Inr False \<and>
   move_available [False, True, True, True, True, True, True]
     (placed_all empty_board
       [(RED, 0), (YELLOW, 0), (RED, 0), (YELLOW, 0), (RED, 0), (YELLOW, 0), (RED, 1),
       (YELLOW, 2), (RED, 1), (YELLOW, 2), (RED, 1), (YELLOW, 2)]) 1 = Inr True \<and>
   wins_immediately [False, True, True, True, True, True, True]
     (placed_all empty_board
       [(RED, 0), (YELLOW, 0), (RED, 0), (YELLOW, 0), (RED, 0), (YELLOW, 0), (RED, 1),
       (YELLOW, 2), (RED, 1), (YELLOW, 2), (RED, 1), (YELLOW, 2)]) RED 1 \<and>
   place_chip_recursive_loop [False, True, True, True, True, True, True]
     (placed_all empty_board
       [(RED, 0), (YELLOW, 0), (RED, 0), (YELLOW, 0), (RED, 0), (YELLOW, 0), (RED, 1),
       (YELLOW, 2), (RED, 1), (YELLOW, 2), (RED, 1), (YELLOW, 2)]) RED 1 0 [] = Inr (Fallthrough []) \<and>
   place_chip_recursive [False, True, True, True, True, True, True]
     (placed_all empty_board
       [(RED, 0), (YELLOW, 0), (RED, 0), (YELLOW, 0), (RED, 0), (YELLOW, 0), (RED, 1),
       (YELLOW, 2), (RED, 1), (YELLOW, 2), (RED, 1), (YELLOW, 2)]) RED 1 = Inr 0"
proof -
  let ?d = "[False, True, True, True, True, True, True]"
  let ?b = "(placed_all empty_board
       [(RED, 0), (YELLOW, 0), (RED, 0), (YELLOW, 0), (RED, 0), (YELLOW, 0), (RED, 1),
       (YELLOW, 2), (RED, 1), (YELLOW, 2), (RED, 1), (YELLOW, 2)])"
  have "legal_placements initial_default_moves empty_board
       [(RED, 0), (YELLOW, 0), (RED, 0), (YELLOW, 0), (RED, 0), (YELLOW, 0), (RED, 1),
       (YELLOW, 2), (RED, 1), (YELLOW, 2), (RED, 1), (YELLOW, 2)] = Some (?b, ?d)"
    by (simp add: legal_placements_placed_all run_simps del: legal_placements.simps)
  moreover have full: "move_available ?d ?b 0 = Inr False"
    by (simp add: move_available_flag run_simps)
  moreover have "move_available ?d ?b 1 = Inr True"
    by (simp add: move_available_flag run_simps)
  moreover have "wins_immediately ?d ?b RED 1"
    by (simp add: wins_immediately_iff run_simps grid_simps)
  moreover note place_chip_recursive_first_column_full [OF full, of RED 1]
  ultimately show ?thesis
    by (intro conjI)
qed

subsection \<open>C6: column indices out of range\<close>

text \<open>
  Claim C6 says that \<open>move_available\<close> and \<open>place_chip\<close> reject every column
  index below 0 or above 6 before any access to a list and without changing the board.
  Neither tests the index. With index -1 on the first empty board,
  \<open>move_available\<close> returns \<open>True\<close>, and \<open>place_chip\<close> returns, having
  written to the grid and counted the move: Python reads -1 as the last column.
\<close>

theorem negative_column_accepted_counterexample:
  "move_available initial_default_moves empty_board (- 1) = Inr True \<and>
   raised (place_chip initial_default_moves empty_board RED (- 1)) = None \<and>
   board (board_after (place_chip initial_default_moves empty_board RED (- 1))) \<noteq>
     board empty_board \<and>
   moves_made (board_after (place_chip initial_default_moves empty_board RED (- 1))) =
     moves_made empty_board + 1"
proof -
  have wf: "wf_grid (board empty_board)"
    using counts_invariant_empty_board by (simp add: counts_invariant_def)
  have h: "0 \<le> column_height empty_board (- 1)" "column_height empty_board (- 1) + 1 < ROWS"
    by (simp_all add: empty_board_fields ROWS_def)
  have c: "- COLUMNS \<le> - 1" "(- 1 :: int) < 0"
    by (simp_all add: COLUMNS_def)
  have "grid_update (board empty_board) (5, 6) RED \<noteq> board empty_board"
    by (simp add: empty_board_fields grid_update_def numeral_eq_Suc)
  then show ?thesis
    using place_chip_negative_column [OF wf c h, of initial_default_moves RED]
    by (simp add: empty_board_fields ROWS_def COLUMNS_def move_available_def py_index_def
        moves_list_def initial_default_moves_explicit)
qed

text \<open>
  C6 as amended: on every board reached by legal placements from
  \<open>Connect4Board()\<close>, whatever the default list held when the board was made, for
  every column index that is at least 7 or below -7, \<open>move_available\<close> raises
  \<open>IndexError\<close>, and \<open>place_chip\<close> raises \<open>IndexError\<close> at its write to the
  grid and leaves the board as it was, in every field, and the default list as it was.
  The test of \<open>play\<close>, which is made before \<open>place_chip\<close> is called, refuses
  every index outside 0 to 6.
\<close>

theorem place_chip_far_column:
  assumes "int (length d0) = COLUMNS" "legal_placements d0 empty_board ms = Some (b, d)"
    "COLUMNS \<le> column \<or> column < - COLUMNS"
  shows "move_available d b column = Inl IndexError \<and>
         place_chip d b player column = Inl (IndexError, b, d) \<and>
         (\<forall>c. valid_input d b c \<longrightarrow> 0 \<le> c \<and> c < COLUMNS)"
  using place_chip_out_of_range [OF assms(2,1,3)]
  by (simp add: valid_input_def)

theorem place_chip_far_column_witness:
  "legal_placements initial_default_moves empty_board [(RED, 3)] =
     Some (placed_all empty_board [(RED, 3)], initial_default_moves) \<and>
   move_available initial_default_moves (placed_all empty_board [(RED, 3)]) 7 =
     Inl IndexError \<and>
   place_chip initial_default_moves (placed_all empty_board [(RED, 3)]) YELLOW 7 =
     Inl (IndexError, placed_all empty_board [(RED, 3)], initial_default_moves) \<and>
   move_available initial_default_moves (placed_all empty_board [(RED, 3)]) (- 8) =
     Inl IndexError \<and>
   place_chip initial_default_moves (placed_all empty_board [(RED, 3)]) YELLOW (- 8) =
     Inl (IndexError, placed_all empty_board [(RED, 3)], initial_default_moves)"
proof -
  have r: "legal_placements initial_default_moves empty_board [(RED, 3)] =
     Some (placed_all empty_board [(RED, 3)], initial_default_moves)"
    by (simp add: legal_placements_placed_all run_simps del: legal_placements.simps)
  have "COLUMNS \<le> 7 \<or> 7 < - COLUMNS" "COLUMNS \<le> - 8 \<or> - 8 < - COLUMNS"
    by (simp_all add: COLUMNS_def)
  from place_chip_far_column [OF length_initial_default_moves r this(1), of YELLOW]
    place_chip_far_column [OF length_initial_default_moves r this(2), of YELLOW] r
  show ?thesis
    by simp
qed

subsection \<open>C7: a placement in a column that is not available\<close>

text \<open>
  Claim C7 says that on every board reached by legal placements, for every column from
  0 to 6 that \<open>move_available\<close> reports as not available, \<open>place_chip\<close> signals
  the error and changes nothing. \<open>place_chip\<close> raises \<open>ValueError\<close> when the
  height of the column is 6, and never reads the flag; the flags of every board made
  by \<open>Connect4Board()\<close> are in the one default list. Once six chips have been placed
  in column 0 of a first such board, the flag of column 0 is cleared in that list. On
  the first board \<open>place_chip\<close> in column 0 then raises \<open>ValueError\<close> and leaves
  the board as it was. On a second board made by \<open>Connect4Board()\<close>,
  \<open>move_available\<close> returns \<open>False\<close> for column 0, whose height is 0, and
  \<open>place_chip\<close> in column 0 returns: it has written the chip to the bottom cell of
  the column, counted the move and recorded it as the last move.
\<close>

theorem place_chip_closed_column_of_new_board:
  "legal_placements initial_default_moves empty_board
       [(RED, 0), (YELLOW, 0), (RED, 0), (YELLOW, 0), (RED, 0), (YELLOW, 0)] =
     Some ((placed_all empty_board
       [(RED, 0), (YELLOW, 0), (RED, 0), (YELLOW, 0), (RED, 0), (YELLOW, 0)]),
           [False, True, True, True, True, True, True]) \<and>
   place_chip [False, True, True, True, True, True, True]
     (placed_all empty_board
       [(RED, 0), (YELLOW, 0), (RED, 0), (YELLOW, 0), (RED, 0), (YELLOW, 0)]) RED 0 =
     Inl (ValueError, (placed_all empty_board
       [(RED, 0), (YELLOW, 0), (RED, 0), (YELLOW, 0), (RED, 0), (YELLOW, 0)]),
          [False, True, True, True, True, True, True]) \<and>
   move_available [False, True, True, True, True, True, True] empty_board 0 = Inr False \<and>
   column_height empty_board 0 = 0 \<and>
   place_chip [False, True, True, True, True, True, True] empty_board RED 0 =
     Inr (placed empty_board RED 0, [False, True, True, True, True, True, True]) \<and>
   cell (board empty_board) (5, 0) = EMPTY \<and>
   cell (board (placed empty_board RED 0)) (5, 0) = RED \<and>
   column_height (placed empty_board RED 0) 0 = 1 \<and>
   moves_made (placed empty_board RED 0) = moves_made empty_board + 1 \<and>
   last_move (placed empty_board RED 0) = (5, 0)"
proof -
  let ?d = "[False, True, True, True, True, True, True]"
  let ?b = "(placed_all empty_board
       [(RED, 0), (YELLOW, 0), (RED, 0), (YELLOW, 0), (RED, 0), (YELLOW, 0)])"
  have "legal_placements initial_default_moves empty_board
       [(RED, 0), (YELLOW, 0), (RED, 0), (YELLOW, 0), (RED, 0), (YELLOW, 0)] = Some (?b, ?d)"
    by (simp add: legal_placements_placed_all run_simps del: legal_placements.simps)
  moreover have "place_chip ?d ?b RED 0 = Inl (ValueError, ?b, ?d)"
    by (rule place_chip_full) (simp add: run_simps)
  moreover have "move_available ?d empty_board 0 = Inr False"
    by (simp add: move_available_def moves_list_def empty_board_fields py_index_def)
  moreover have "place_chip ?d empty_board RED 0 = Inr (placed empty_board RED 0, ?d)"
    using place_chip_placed [of empty_board ?d 0 RED] counts_invariant_empty_board
    by (simp add: counts_invariant_def run_simps)
  moreover have "cell (board empty_board) (5, 0) = EMPTY"
    "cell (board (placed empty_board RED 0)) (5, 0) = RED"
    by (simp_all add: run_simps grid_simps)
  moreover have "column_height empty_board 0 = 0"
    "column_height (placed empty_board RED 0) 0 = 1"
    "moves_made (placed empty_board RED 0) = moves_made empty_board + 1"
    "last_move (placed empty_board RED 0) = (5, 0)"
    by (simp_all add: run_simps)
  ultimately show ?thesis
    by (intro conjI)
qed

subsection \<open>C8: the heights of the columns\<close>

text \<open>
  Claim C8 says that on every board reached by legal placements from the empty board,
  the move count is the sum of the heights of the seven columns, every height is at
  most 6, and \<open>move_available\<close> is true of a column exactly when its height is
  below 6. The counts are as the claim says (lemmas \<open>legal_placements_invariant\<close>
  and \<open>counts_invariant_placed\<close>), and a column that \<open>move_available\<close> reports
  as available has height below 6. The converse fails: the flags of every board made by
  \<open>Connect4Board()\<close> are in the one default list. Once six chips have been placed
  in column 3 of a first such board, a second one, on which two chips are then legally
  placed in column 0, has column 3 of height 0, and \<open>move_available\<close> returns
  \<open>False\<close> for it, so that the test of \<open>play\<close> refuses a column that is empty.
\<close>

theorem empty_column_not_available:
  "legal_placements initial_default_moves empty_board
       [(RED, 3), (YELLOW, 3), (RED, 3), (YELLOW, 3), (RED, 3), (YELLOW, 3)] =
     Some ((placed_all empty_board
       [(RED, 3), (YELLOW, 3), (RED, 3), (YELLOW, 3), (RED, 3), (YELLOW, 3)]),
           [True, True, True, False, True, True, True]) \<and>
   legal_placements [True, True, True, False, True, True, True] empty_board
       [(RED, 0), (YELLOW, 0)] =
     Some ((placed_all empty_board
     [(RED, 0), (YELLOW, 0)]), [True, True, True, False, True, True, True]) \<and>
   moves_made (placed_all empty_board
     [(RED, 0), (YELLOW, 0)]) = 2 \<and>
   sum_list (map (column_height (placed_all empty_board
     [(RED, 0), (YELLOW, 0)]))
     (py_range 0 COLUMNS)) = 2 \<and>
   column_height (placed_all empty_board
     [(RED, 0), (YELLOW, 0)]) 3 = 0 \<and>
   move_available [True, True, True, False, True, True, True]
     (placed_all empty_board
     [(RED, 0), (YELLOW, 0)]) 3 = Inr False \<and>
   \<not> valid_input [True, True, True, False, True, True, True]
     (placed_all empty_board
     [(RED, 0), (YELLOW, 0)]) 3"
proof -
  let ?d = "[True, True, True, False, True, True, True]"
  let ?b = "(placed_all empty_board
     [(RED, 0), (YELLOW, 0)])"
  have "legal_placements initial_default_moves empty_board
       [(RED, 3), (YELLOW, 3), (RED, 3), (YELLOW, 3), (RED, 3), (YELLOW, 3)] = Some ((placed_all empty_board
       [(RED, 3), (YELLOW, 3), (RED, 3), (YELLOW, 3), (RED, 3), (YELLOW, 3)]), ?d)"
    by (simp add: legal_placements_placed_all run_simps del: legal_placements.simps)
  moreover have "legal_placements [True, True, True, False, True, True, True] empty_board
       [(RED, 0), (YELLOW, 0)] = Some (?b, ?d)"
    by (simp add: legal_placements_placed_all run_simps del: legal_placements.simps)
  moreover have "moves_made ?b = 2" "column_height ?b 3 = 0"
    "sum_list (map (column_height ?b) (py_range 0 COLUMNS)) = 2"
    by (simp_all add: run_simps)
  moreover have m: "move_available ?d ?b 3 = Inr False"
    by (simp add: move_available_flag run_simps)
  moreover from m have "\<not> valid_input ?d ?b 3"
    by (simp add: valid_input_def)
  ultimately show ?thesis
    by (intro conjI)
qed

subsection \<open>C9: the column solveNaive returns\<close>

text \<open>
  Claim C9 says that \<open>solveNaive\<close> returns the least open column where the chip
  wins at once, and -1 when there is none. \<open>solveNaive\<close> returns the least
  available column where the copy has a winner after \<open>place_chip\<close> (lemma
  \<open>solveNaive_loop_spec\<close>), and \<open>place_chip\<close> finds a winner only on the
  generated lines, which lack the four rising diagonals that start in row 3. The board
  below is reached in a game of 17 alternate placements. The grid is, with row 0 first,
  \<^verbatim>\<open>.......\<close>, \<^verbatim>\<open>..YR...\<close>, \<^verbatim>\<open>.YRY...\<close>,
  \<^verbatim>\<open>YYRR...\<close>, \<^verbatim>\<open>RRYY...\<close>, \<^verbatim>\<open>RRYR...\<close>. Column 3 is
  available, and a yellow chip there lands on (0, 3) and completes the yellow diagonal
  (3, 0), (2, 1), (1, 2), (0, 3). The copy has no winner after that placement, and
  \<open>solveNaive\<close> returns -1 for yellow.
\<close>

theorem solveNaive_misses_rising_diagonal:
  "game_placements initial_default_moves empty_board
       [(RED, 3), (YELLOW, 3), (RED, 0), (YELLOW, 2), (RED, 3), (YELLOW, 3), (RED, 1),
       (YELLOW, 2), (RED, 1), (YELLOW, 1), (RED, 0), (YELLOW, 0), (RED, 2), (YELLOW, 1),
       (RED, 2), (YELLOW, 2), (RED, 3)] =
     Some ((placed_all empty_board
       [(RED, 3), (YELLOW, 3), (RED, 0), (YELLOW, 2), (RED, 3), (YELLOW, 3), (RED, 1),
       (YELLOW, 2), (RED, 1), (YELLOW, 1), (RED, 0), (YELLOW, 0), (RED, 2), (YELLOW, 1),
       (RED, 2), (YELLOW, 2), (RED, 3)]),
           initial_default_moves) \<and>
   move_available initial_default_moves
     (placed_all empty_board
       [(RED, 3), (YELLOW, 3), (RED, 0), (YELLOW, 2), (RED, 3), (YELLOW, 3), (RED, 1),
       (YELLOW, 2), (RED, 1), (YELLOW, 1), (RED, 0), (YELLOW, 0), (RED, 2), (YELLOW, 1),
       (RED, 2), (YELLOW, 2), (RED, 3)]) 3 = Inr True \<and>
   place_chip initial_default_moves (deepcopy initial_default_moves
     (placed_all empty_board
       [(RED, 3), (YELLOW, 3), (RED, 0), (YELLOW, 2), (RED, 3), (YELLOW, 3), (RED, 1),
       (YELLOW, 2), (RED, 1), (YELLOW, 1), (RED, 0), (YELLOW, 0), (RED, 2), (YELLOW, 1),
       (RED, 2), (YELLOW, 2), (RED, 3)])) YELLOW 3 =
     Inr (placed (deepcopy initial_default_moves
       (placed_all empty_board
       [(RED, 3), (YELLOW, 3), (RED, 0), (YELLOW, 2), (RED, 3), (YELLOW, 3), (RED, 1),
       (YELLOW, 2), (RED, 1), (YELLOW, 1), (RED, 0), (YELLOW, 0), (RED, 2), (YELLOW, 1),
       (RED, 2), (YELLOW, 2), (RED, 3)])) YELLOW 3, initial_default_moves) \<and>
   last_move (placed (deepcopy initial_default_moves
     (placed_all empty_board
       [(RED, 3), (YELLOW, 3), (RED, 0), (YELLOW, 2), (RED, 3), (YELLOW, 3), (RED, 1),
       (YELLOW, 2), (RED, 1), (YELLOW, 1), (RED, 0), (YELLOW, 0), (RED, 2), (YELLOW, 1),
       (RED, 2), (YELLOW, 2), (RED, 3)])) YELLOW 3) = (0, 3) \<and>
   map (cell (board (placed (deepcopy initial_default_moves
     (placed_all empty_board
       [(RED, 3), (YELLOW, 3), (RED, 0), (YELLOW, 2), (RED, 3), (YELLOW, 3), (RED, 1),
       (YELLOW, 2), (RED, 1), (YELLOW, 1), (RED, 0), (YELLOW, 0), (RED, 2), (YELLOW, 1),
       (RED, 2), (YELLOW, 2), (RED, 3)])) YELLOW 3))) [(3, 0), (2, 1), (1, 2), (0, 3)] =
     [YELLOW, YELLOW, YELLOW, YELLOW] \<and>
   get_winner (placed (deepcopy initial_default_moves
     (placed_all empty_board
       [(RED, 3), (YELLOW, 3), (RED, 0), (YELLOW, 2), (RED, 3), (YELLOW, 3), (RED, 1),
       (YELLOW, 2), (RED, 1), (YELLOW, 1), (RED, 0), (YELLOW, 0), (RED, 2), (YELLOW, 1),
       (RED, 2), (YELLOW, 2), (RED, 3)])) YELLOW 3) = EMPTY \<and>
   solveNaive initial_default_moves
     (placed_all empty_board
       [(RED, 3), (YELLOW, 3), (RED, 0), (YELLOW, 2), (RED, 3), (YELLOW, 3), (RED, 1),
       (YELLOW, 2), (RED, 1), (YELLOW, 1), (RED, 0), (YELLOW, 0), (RED, 2), (YELLOW, 1),
       (RED, 2), (YELLOW, 2), (RED, 3)]) YELLOW = Inr (- 1) \<and>
   [(3, 0), (2, 1), (1, 2), (0, 3)] \<notin> set WINNING_LINES"
proof -
  let ?b = "(placed_all empty_board
       [(RED, 3), (YELLOW, 3), (RED, 0), (YELLOW, 2), (RED, 3), (YELLOW, 3), (RED, 1),
       (YELLOW, 2), (RED, 1), (YELLOW, 1), (RED, 0), (YELLOW, 0), (RED, 2), (YELLOW, 1),
       (RED, 2), (YELLOW, 2), (RED, 3)])"
  let ?c = "placed (deepcopy initial_default_moves ?b) YELLOW 3"
  have inv: "board_invariant [True, True, True, True, True, True, True] ?b"
    by (simp add: run_simps)
  have "game_placements initial_default_moves empty_board
       [(RED, 3), (YELLOW, 3), (RED, 0), (YELLOW, 2), (RED, 3), (YELLOW, 3), (RED, 1),
       (YELLOW, 2), (RED, 1), (YELLOW, 1), (RED, 0), (YELLOW, 0), (RED, 2), (YELLOW, 1),
       (RED, 2), (YELLOW, 2), (RED, 3)] = Some (?b, initial_default_moves)"
    by (simp add: game_placements_placed_all run_simps grid_simps still_playing_def
        del: game_placements.simps)
  moreover have "move_available initial_default_moves ?b 3 = Inr True"
    by (simp add: move_available_flag run_simps)
  moreover have "place_chip initial_default_moves (deepcopy initial_default_moves ?b) YELLOW 3 =
      Inr (?c, initial_default_moves)"
    using inv by (intro place_chip_deepcopy) (simp_all add: valid_input_iff run_simps)
  moreover have "last_move ?c = (0, 3)"
    by (simp add: run_simps)
  moreover have "map (cell (board ?c)) [(3, 0), (2, 1), (1, 2), (0, 3)] =
      [YELLOW, YELLOW, YELLOW, YELLOW]"
    by (simp add: run_simps grid_simps)
  moreover have "get_winner ?c = EMPTY"
    by (simp add: get_winner_def run_simps grid_simps)
  moreover have "solveNaive initial_default_moves ?b YELLOW = Inr (- 1)"
    by (simp add: solveNaive_def solveNaive_loop_step solveNaive_loop_end
        wins_immediately_iff run_simps grid_simps)
  moreover have "[(3, 0), (2, 1), (1, 2), (0, 3)] \<notin> set WINNING_LINES"
    by (simp add: WINNING_LINES_explicit)
  ultimately show ?thesis
    by (intro conjI)
qed

subsection \<open>C10: the copy of a board\<close>



end
